theory Spec2Isabelle
  imports Complex_Main "HOL-Library.Word"
begin

section \<open>JavaScript numbers\<close>

text \<open>
  The plug-in is TypeScript, so every \<open>number\<close> is an IEEE 754 double. Integers and
  sixteenths of integers of the size met in the pixel pipeline are held exactly by a double,
  and are modelled by \<^typ>\<open>int\<close> and \<^typ>\<open>real\<close>. A result that is not a finite number
  (\<open>NaN\<close>, \<open>Infinity\<close>) is \<^const>\<open>None\<close>; the functions below say where one arises.
  \<open>Math.pow\<close> and \<open>Math.sqrt\<close> are taken over the reals, without their rounding.
\<close>

definition js_div :: "real \<Rightarrow> real \<Rightarrow> real option" where
  \<comment> \<open>\<open>x / y\<close>: a zero divisor gives \<open>Infinity\<close> or \<open>NaN\<close>, never an exception.\<close>
  "js_div x y = (if y = 0 then None else Some (x / y))"

definition Math_pow :: "real \<Rightarrow> real \<Rightarrow> real option" where
  \<comment> \<open>\<open>Math.pow\<close> over the reals; \<open>0\<close> to a negative power is \<open>Infinity\<close>, a negative
      base to a fractional power is \<open>NaN\<close>.\<close>
  "Math_pow b e =
     (if 0 < b then Some (b powr e)
      else if e = 0 then Some 1
      else if b = 0 then (if 0 < e then Some 0 else None)
      else if e = of_int \<lfloor>e\<rfloor> then Some ((if even \<lfloor>e\<rfloor> then 1 else - 1) * (\<bar>b\<bar> powr e))
      else None)"

definition Math_round :: "real \<Rightarrow> int" where
  \<comment> \<open>\<open>Math.round\<close>: nearest integer, a tie goes up.\<close>
  "Math_round x = \<lfloor>x + 1 / 2\<rfloor>"

text \<open>
  The preview geometry multiplies by a percentage divided by 100, which a double does not
  hold exactly, and rounds the product to an integer: there the rounding of each operation
  decides the result. \<open>double\<close> rounds a real to the nearest number with a 53-bit
  significand, a tie to the one with an even last bit (the exponent range is not limited:
  no value here is near its ends).
\<close>

definition roundTiesToEven :: "real \<Rightarrow> int" where
  "roundTiesToEven y =
     (let f = \<lfloor>y\<rfloor>
      in if y < of_int f + 1 / 2 then f
         else if of_int f + 1 / 2 < y then f + 1
         else if even f then f else f + 1)"

definition double :: "real \<Rightarrow> real" where
  "double x =
     (if x = 0 then 0
      else let ulp = 2 powr (of_int \<lfloor>log 2 \<bar>x\<bar>\<rfloor> - 52)
           in of_int (roundTiesToEven (x / ulp)) * ulp)"

section \<open>Levels (\<open>utils/levels.ts\<close>)\<close>

record LevelsSettings =
  blackPoint :: int
  midPoint :: real
  whitePoint :: int

definition DEFAULT_LEVELS :: LevelsSettings where
  "DEFAULT_LEVELS = \<lparr>blackPoint = 0, midPoint = 1, whitePoint = 255\<rparr>"

definition applyLevels :: "int \<Rightarrow> int \<Rightarrow> real \<Rightarrow> int \<Rightarrow> int option" where
  \<comment> \<open>The two clipping returns come first, in the source's order. \<^const>\<open>None\<close>: the
      evaluation met a value that is not a finite number (JavaScript goes on with \<open>Infinity\<close>
      or \<open>NaN\<close>; the model stops there).\<close>
  "applyLevels value black mid white =
     (if value \<le> black then Some 0
      else if value \<ge> white then Some 255
      else
        case js_div (of_int (value - black)) (of_int (white - black)) of
          None \<Rightarrow> None
        | Some normalized \<Rightarrow>
            (case js_div 1 mid of
               None \<Rightarrow> None
             | Some e \<Rightarrow>
                 (case Math_pow normalized e of
                    None \<Rightarrow> None
                  | Some adjusted \<Rightarrow> Some (Math_round (adjusted * 255)))))"

section \<open>Pixel buffers (\<open>utils/imageDataHelper.ts\<close>)\<close>

text \<open>
  An \<open>ImageData\<close> object holds its size and a reference to a \<open>Uint8ClampedArray\<close>. The
  arrays live in a heap, a list indexed by reference, so that two names for one array are
  visible in the model: allocation appends a cell, a store replaces one.
\<close>

type_synonym byte = "8 word"

type_synonym ref = nat

type_synonym heap = "byte list list"

record Size =
  width :: nat
  height :: nat

record ImageData = Size +
  data :: ref

definition ToUint8Clamp :: "real \<Rightarrow> byte" where
  \<comment> \<open>The conversion of every store into a \<open>Uint8ClampedArray\<close>: clamp to 0..255, round to
      the nearest integer, a tie to the even one.\<close>
  "ToUint8Clamp x = word_of_int (roundTiesToEven (min (max x 0) 255))"

definition createImageData :: "nat \<Rightarrow> nat \<Rightarrow> heap \<Rightarrow> ImageData \<times> heap" where
  \<comment> \<open>\<open>new Uint8ClampedArray(width * height * 4)\<close>: a fresh array of zeros.\<close>
  "createImageData w h hp =
     (\<lparr>width = w, height = h, data = length hp\<rparr>, hp @ [replicate (w * h * 4) 0])"

definition applyLevels_store :: "LevelsSettings \<Rightarrow> byte \<Rightarrow> byte option" where
  \<comment> \<open>\<open>data[i] = applyLevels(data[i], blackPoint, midPoint, whitePoint)\<close>\<close>
  "applyLevels_store lv c =
     map_option (\<lambda>r. ToUint8Clamp (of_int r))
       (applyLevels (uint c) (blackPoint lv) (midPoint lv) (whitePoint lv))"

fun applyLevels_loop :: "LevelsSettings \<Rightarrow> byte list \<Rightarrow> byte list option" where
  "applyLevels_loop lv (r # g # b # a # rest) =
     (case (applyLevels_store lv r, applyLevels_store lv g, applyLevels_store lv b,
            applyLevels_loop lv rest) of
        (Some r', Some g', Some b', Some rest') \<Rightarrow> Some (r' # g' # b' # a # rest')
      | _ \<Rightarrow> None)"
| "applyLevels_loop lv [r, g, b] =
     (case (applyLevels_store lv r, applyLevels_store lv g, applyLevels_store lv b) of
        (Some r', Some g', Some b') \<Rightarrow> Some [r', g', b']
      | _ \<Rightarrow> None)"
| "applyLevels_loop lv [r, g] =
     (case (applyLevels_store lv r, applyLevels_store lv g) of
        (Some r', Some g') \<Rightarrow> Some [r', g']
      | _ \<Rightarrow> None)"
| "applyLevels_loop lv [r] = map_option (\<lambda>r'. [r']) (applyLevels_store lv r)"
| "applyLevels_loop lv [] = Some []"

text \<open>
  \<^const>\<open>applyLevels_loop\<close> is \<open>for (i = 0; i < data.length; i += 4)\<close>: three channels are
  rewritten and the fourth is kept. A store beyond the end of a typed array does nothing, so
  a last pixel cut short has only the channels it holds rewritten.
\<close>

definition applyLevelsToImageData :: "ImageData \<Rightarrow> LevelsSettings \<Rightarrow> heap \<Rightarrow> (ImageData \<times> heap) option" where
  \<comment> \<open>The array of the argument is overwritten and the argument itself is returned.\<close>
  "applyLevelsToImageData imageData levels hp =
     (case applyLevels_loop levels (hp ! data imageData) of
        None \<Rightarrow> None
      | Some d \<Rightarrow> Some (imageData, hp[data imageData := d]))"

section \<open>Palette matcher and ditherer (\<open>dithering/algorithms/floydSteinberg.ts\<close>)\<close>

definition str_slice :: "string \<Rightarrow> nat \<Rightarrow> nat \<Rightarrow> string" where
  "str_slice s i j = take (j - i) (drop i s)"

definition hexDigit :: "char \<Rightarrow> nat option" where
  "hexDigit c =
     (let n = (of_char c :: nat)
      in if 48 \<le> n \<and> n \<le> 57 then Some (n - 48)
         else if 65 \<le> n \<and> n \<le> 70 then Some (n - 55)
         else if 97 \<le> n \<and> n \<le> 102 then Some (n - 87)
         else None)"

definition isWhiteSpace :: "char \<Rightarrow> bool" where
  "isWhiteSpace c = ((of_char c :: nat) \<in> {9, 10, 11, 12, 13, 32, 160})"

definition parseInt16 :: "string \<Rightarrow> int option" where
  \<comment> \<open>\<open>parseInt(s, 16)\<close>: leading white space, a sign and a \<open>0x\<close> prefix are skipped, then
      the longest run of hexadecimal digits is read; no digit at all is \<open>NaN\<close>.\<close>
  "parseInt16 s =
     (let s1 = dropWhile isWhiteSpace s;
          sign = (case s1 of c # r \<Rightarrow> if c = CHR ''-'' then - 1 else 1 | [] \<Rightarrow> (1::int));
          s2 = (case s1 of c # r \<Rightarrow> if c = CHR ''-'' \<or> c = CHR ''+'' then r else s1 | [] \<Rightarrow> s1);
          s3 = (case s2 of
                  a # b # r \<Rightarrow> if a = CHR ''0'' \<and> (b = CHR ''x'' \<or> b = CHR ''X'') then r else s2
                | _ \<Rightarrow> s2);
          ds = takeWhile (\<lambda>c. hexDigit c \<noteq> None) s3
      in if ds = [] then None
         else Some (sign * int (foldl (\<lambda>a c. a * 16 + the (hexDigit c)) 0 ds)))"

type_synonym rgb = "int \<times> int \<times> int"

fun findClosestColor_loop :: "int \<Rightarrow> int \<Rightarrow> int \<Rightarrow> string list \<Rightarrow> real option \<times> rgb \<Rightarrow> real option \<times> rgb" where
  \<comment> \<open>\<open>for (const color of palette)\<close>. The state is \<open>(minDistance, closest)\<close>, with
      \<^const>\<open>None\<close> for the initial \<open>Infinity\<close>. A colour that does not parse gives the
      distance \<open>NaN\<close>, which is below nothing.\<close>
  "findClosestColor_loop r g b [] st = st"
| "findClosestColor_loop r g b (color # palette) (minDistance, closest) =
     (case (parseInt16 (str_slice color 1 3), parseInt16 (str_slice color 3 5), parseInt16 (str_slice color 5 7)) of
        (Some pr, Some pg, Some pb) \<Rightarrow>
          (let distance = sqrt (of_int ((r - pr)\<^sup>2 + (g - pg)\<^sup>2 + (b - pb)\<^sup>2))
           in if (case minDistance of None \<Rightarrow> True | Some m \<Rightarrow> distance < m)
              then findClosestColor_loop r g b palette (Some distance, (pr, pg, pb))
              else findClosestColor_loop r g b palette (minDistance, closest))
      | _ \<Rightarrow> findClosestColor_loop r g b palette (minDistance, closest))"

definition findClosestColor :: "int \<Rightarrow> int \<Rightarrow> int \<Rightarrow> string list \<Rightarrow> rgb" where
  "findClosestColor r g b palette = snd (findClosestColor_loop r g b palette (None, (0, 0, 0)))"

definition DEFAULT_PALETTE :: "string list" where
  "DEFAULT_PALETTE = [''#000000'', ''#FFFFFF'']"

text \<open>
  The working array \<open>outputData\<close> has \<open>width * height * 4\<close> cells and every index the
  loops read is below that, so a read is \<open>outputData ! i\<close>. A store is
  \<open>outputData[i := v]\<close>, which like the typed array does nothing beyond the end.
\<close>

definition diffuse :: "byte list \<Rightarrow> nat \<Rightarrow> int \<Rightarrow> real \<Rightarrow> byte list" where
  \<comment> \<open>\<open>outputData[i] = Math.max(0, Math.min(255, outputData[i] + err * k / 16))\<close>\<close>
  "diffuse outputData i err k =
     outputData[i := ToUint8Clamp (max 0 (min 255 (of_int (uint (outputData ! i)) + of_int err * k / 16)))]"

definition diffuse3 :: "byte list \<Rightarrow> nat \<Rightarrow> rgb \<Rightarrow> real \<Rightarrow> byte list" where
  \<comment> \<open>the three stores of one neighbour, in the source's order\<close>
  "diffuse3 outputData i err k =
     (case err of (errR, errG, errB) \<Rightarrow>
        diffuse (diffuse (diffuse outputData i errR k) (i + 1) errG k) (i + 2) errB k)"

definition fs_pixel :: "nat \<Rightarrow> nat \<Rightarrow> string list \<Rightarrow> nat \<Rightarrow> nat \<Rightarrow> byte list \<Rightarrow> byte list" where
  \<comment> \<open>the body of the inner loop at \<open>(x, y)\<close>\<close>
  "fs_pixel w h palette y x outputData =
     (let idx = (y * w + x) * 4;
          oldR = uint (outputData ! idx);
          oldG = uint (outputData ! (idx + 1));
          oldB = uint (outputData ! (idx + 2))
      in case findClosestColor oldR oldG oldB palette of
           (newR, newG, newB) \<Rightarrow>
             (let out0 = outputData[idx := ToUint8Clamp (of_int newR),
                                    idx + 1 := ToUint8Clamp (of_int newG),
                                    idx + 2 := ToUint8Clamp (of_int newB)];
                  err = (oldR - newR, oldG - newG, oldB - newB);
                  out1 = (if x + 1 < w then diffuse3 out0 ((y * w + (x + 1)) * 4) err 7 else out0);
                  out2 = (if x > 0 \<and> y + 1 < h
                          then diffuse3 out1 (((y + 1) * w + (x - 1)) * 4) err 3 else out1);
                  out3 = (if y + 1 < h then diffuse3 out2 (((y + 1) * w + x) * 4) err 5 else out2)
              in if x + 1 < w \<and> y + 1 < h
                 then diffuse3 out3 (((y + 1) * w + (x + 1)) * 4) err 1 else out3))"

definition fs_loop :: "nat \<Rightarrow> nat \<Rightarrow> string list \<Rightarrow> byte list \<Rightarrow> byte list" where
  \<comment> \<open>\<open>for (y = 0; y < height; y++) for (x = 0; x < width; x++)\<close>\<close>
  "fs_loop w h palette outputData =
     fold (\<lambda>y out. fold (fs_pixel w h palette y) [0..<w] out) [0..<h] outputData"

definition copy_loop :: "byte list \<Rightarrow> byte list \<Rightarrow> byte list" where
  \<comment> \<open>\<open>for (i = 0; i < data.length; i++) outputData[i] = data[i]\<close>; a store beyond the end of
      \<open>outputData\<close> does nothing.\<close>
  "copy_loop d outputData = fold (\<lambda>i out. out[i := d ! i]) [0..<length d] outputData"

definition floydSteinberg :: "ImageData \<Rightarrow> string list \<Rightarrow> heap \<Rightarrow> ImageData \<times> heap" where
  "floydSteinberg imageData palette hp =
     (case createImageData (width imageData) (height imageData) hp of
        (output, hp1) \<Rightarrow>
          (let outputData = copy_loop (hp1 ! data imageData) (hp1 ! data output)
           in (output,
               hp1[data output := fs_loop (width imageData) (height imageData) palette outputData])))"

section \<open>Preview geometry (\<open>utils/displayCalculator.ts\<close>)\<close>

text \<open>
  Sizes are pixel counts and percentages are what \<open>parseInt\<close> gave for a slider:
  natural numbers.
\<close>

datatype BorderColor = green | red | blue

definition calculateProcessedSize :: "Size \<Rightarrow> nat \<Rightarrow> Size" where
  "calculateProcessedSize docSize processingScale =
     (let scale = double (real processingScale / 100)
      in \<lparr>width = nat (Math_round (double (real (width docSize) * scale))),
          height = nat (Math_round (double (real (height docSize) * scale)))\<rparr>)"

definition calculateCanvasSize :: "Size \<Rightarrow> nat \<Rightarrow> Size" where
  "calculateCanvasSize processedSize displayZoom =
     (let zoom = double (real displayZoom / 100)
      in \<lparr>width = nat (Math_round (double (real (width processedSize) * zoom))),
          height = nat (Math_round (double (real (height processedSize) * zoom)))\<rparr>)"

definition getBorderColor :: "nat \<Rightarrow> BorderColor" where
  "getBorderColor displayZoom =
     (if displayZoom = 100 then green
      else if displayZoom < 100 then red
      else blue)"

section \<open>Capture and orchestration (\<open>core/documentValidator.ts\<close>, \<open>App.tsx\<close>)\<close>

text \<open>
  The host application is a parameter that stands for the Photoshop calls: for a scale it
  gives the target width and height (which the source computes from the document's size with
  the expression of \<open>calculateProcessedSize\<close>) and the pixel bytes it read, or fails.
  \<^const>\<open>None\<close> from \<open>getCompositeImageData\<close> is any of its \<open>throw\<close>s.
\<close>

type_synonym host = "nat \<Rightarrow> (nat \<times> nat \<times> byte list) option"

fun rgb_to_rgba :: "byte list \<Rightarrow> byte list" where
  "rgb_to_rgba (r # g # b # rest) = r # g # b # 255 # rgb_to_rgba rest"
| "rgb_to_rgba rest = []"

definition getCompositeImageData :: "host \<Rightarrow> nat \<Rightarrow> heap \<Rightarrow> (ImageData \<times> heap) option" where
  "getCompositeImageData photoshop scale hp =
     (case photoshop scale of
        None \<Rightarrow> None
      | Some (targetWidth, targetHeight, pixelData) \<Rightarrow>
          if pixelData = [] then None
          else
            (case createImageData targetWidth targetHeight hp of
               (imageData, hp1) \<Rightarrow>
                 if length pixelData = targetWidth * targetHeight * 4
                 then Some (imageData, hp1[data imageData := pixelData])
                 else if length pixelData = targetWidth * targetHeight * 3
                 then Some (imageData, hp1[data imageData := rgb_to_rgba pixelData])
                 else None))"

text \<open>
  The two stages that \<open>processImage\<close> runs on the raw image: the levels pass, then the
  ditherer on what the levels pass returned.
\<close>

definition process_stages :: "ImageData \<Rightarrow> LevelsSettings \<Rightarrow> string list \<Rightarrow> heap \<Rightarrow> (ImageData \<times> heap) option" where
  "process_stages rawImageData levels palette hp =
     (case applyLevelsToImageData rawImageData levels hp of
        None \<Rightarrow> None
      | Some (leveled, hp1) \<Rightarrow> Some (floydSteinberg leveled palette hp1))"

datatype AlgorithmType = FloydSteinberg | Atkinson | Ordered | Sierra | Stucki | Burkes

record PreviewState =
  processingScale :: nat
  algorithm :: AlgorithmType
  levels :: LevelsSettings
  palette :: "string list"
  livePreview :: bool
  processedImageData :: "ImageData option"

text \<open>
  The component: its state, the \<open>cachedRawImageRef\<close> reference, the heap, a clock in
  milliseconds and the two pending \<open>setTimeout\<close> calls of the effects, each with its deadline
  and the state of the render that registered it (what the callback's closure sees).
\<close>

record App =
  previewState :: PreviewState
  cachedRawImageRef :: "ImageData option"
  arrays :: heap
  clock :: nat
  liveTimeout :: "(nat \<times> PreviewState) option"
  scaleTimeout :: "(nat \<times> PreviewState) option"

definition initialApp :: App where
  "initialApp =
     \<lparr>previewState =
        \<lparr>processingScale = 10, algorithm = FloydSteinberg, levels = DEFAULT_LEVELS,
         palette = DEFAULT_PALETTE, livePreview = True, processedImageData = None\<rparr>,
      cachedRawImageRef = None, arrays = [], clock = 0, liveTimeout = None, scaleTimeout = None\<rparr>"

text \<open>
  \<open>processImage\<close> takes the raw image from the cache or from a capture, which it then
  caches. A failed capture is caught: nothing but the error display changes. The capture is
  taken to finish before the next event. \<^const>\<open>None\<close> is the levels pass meeting a value
  that is not finite.
\<close>

definition processImage :: "host \<Rightarrow> PreviewState \<Rightarrow> bool \<Rightarrow> App \<Rightarrow> App option" where
  "processImage photoshop closure useCache app =
     (case (case (if useCache then cachedRawImageRef app else None) of
              Some cached \<Rightarrow> Some (cached, app)
            | None \<Rightarrow>
                (case getCompositeImageData photoshop (processingScale closure) (arrays app) of
                   None \<Rightarrow> None
                 | Some (rawImageData, hp1) \<Rightarrow>
                     Some (rawImageData, app\<lparr>arrays := hp1, cachedRawImageRef := Some rawImageData\<rparr>))) of
        None \<Rightarrow> Some app
      | Some (rawImageData, app1) \<Rightarrow>
          (case process_stages rawImageData (levels closure) (palette closure) (arrays app1) of
             None \<Rightarrow> None
           | Some (dithered, hp3) \<Rightarrow>
               Some (app1\<lparr>arrays := hp3,
                          previewState := (previewState app1)\<lparr>processedImageData := Some dithered\<rparr>\<rparr>)))"

text \<open>
  Events are the handlers of the controls and the passing of time. After a render in which
  one of its dependencies changed, an effect cancels its pending timeout and registers a new
  one if live preview is on and a raw image is cached. \<open>handleLevelsChange\<close> builds a new
  \<open>levels\<close> object on every call, so that effect always runs again. \<open>Wait\<close> fires
  the timeouts that fall due, the earlier deadline first; of two equal deadlines the 500 ms
  timeout was registered first.
\<close>

datatype event =
    ClickProcess
  | ChangeProcessingScale nat
  | ChangeAlgorithm AlgorithmType
  | ChangeLevels LevelsSettings
  | Wait nat

definition liveEffect :: "App \<Rightarrow> App" where
  "liveEffect app =
     app\<lparr>liveTimeout :=
           (if livePreview (previewState app) \<and> cachedRawImageRef app \<noteq> None
            then Some (clock app + 300, previewState app) else None)\<rparr>"

definition scaleEffect :: "App \<Rightarrow> App" where
  "scaleEffect app =
     app\<lparr>scaleTimeout :=
           (if livePreview (previewState app) \<and> cachedRawImageRef app \<noteq> None
            then Some (clock app + 500, previewState app) else None)\<rparr>"

definition fireScale :: "host \<Rightarrow> nat \<Rightarrow> App \<Rightarrow> App option" where
  "fireScale photoshop t app =
     (case scaleTimeout app of
        Some (deadline, closure) \<Rightarrow>
          if deadline \<le> t
          then processImage photoshop closure False
                 (app\<lparr>scaleTimeout := None, cachedRawImageRef := None, clock := deadline\<rparr>)
          else Some app
      | None \<Rightarrow> Some app)"

definition fireLive :: "host \<Rightarrow> nat \<Rightarrow> App \<Rightarrow> App option" where
  "fireLive photoshop t app =
     (case liveTimeout app of
        Some (deadline, closure) \<Rightarrow>
          if deadline \<le> t
          then processImage photoshop closure True (app\<lparr>liveTimeout := None, clock := deadline\<rparr>)
          else Some app
      | None \<Rightarrow> Some app)"

definition liveFirst :: "App \<Rightarrow> bool" where
  "liveFirst app =
     (case (liveTimeout app, scaleTimeout app) of
        (Some (dl, _), Some (ds, _)) \<Rightarrow> dl < ds
      | _ \<Rightarrow> True)"

definition wait :: "host \<Rightarrow> nat \<Rightarrow> App \<Rightarrow> App option" where
  "wait photoshop d app =
     (let t = clock app + d
      in map_option (\<lambda>app'. app'\<lparr>clock := t\<rparr>)
           (if liveFirst app
            then Option.bind (fireLive photoshop t app) (fireScale photoshop t)
            else Option.bind (fireScale photoshop t app) (fireLive photoshop t)))"

fun step :: "host \<Rightarrow> event \<Rightarrow> App \<Rightarrow> App option" where
  "step photoshop ClickProcess app = processImage photoshop (previewState app) False app"
| "step photoshop (ChangeProcessingScale v) app =
     (let app1 = app\<lparr>previewState := (previewState app)\<lparr>processingScale := v\<rparr>\<rparr>
      in Some (if v = processingScale (previewState app) then app1 else scaleEffect app1))"
| "step photoshop (ChangeAlgorithm a) app =
     (let app1 = app\<lparr>previewState := (previewState app)\<lparr>algorithm := a\<rparr>\<rparr>
      in Some (if a = algorithm (previewState app) then app1 else liveEffect app1))"
| "step photoshop (ChangeLevels lv) app =
     Some (liveEffect (app\<lparr>previewState := (previewState app)\<lparr>levels := lv\<rparr>\<rparr>))"
| "step photoshop (Wait d) app = wait photoshop d app"

fun run :: "host \<Rightarrow> event list \<Rightarrow> App \<Rightarrow> App option" where
  "run photoshop [] app = Some app"
| "run photoshop (e # es) app = Option.bind (step photoshop e app) (run photoshop es)"

section \<open>The ditherer in the words of the specification\<close>

text \<open>
  A second definition of the error diffusion, from the specification: the pixels in
  row-major order, the index \<open>(y * width + x) * 4 + c\<close> of channel \<open>c\<close> of pixel \<open>(x, y)\<close>,
  the kernel as a list of offsets and weights, a neighbour written only inside the bounds of
  the buffer, and each write \<open>clamp(current + error * weight / 16, 0, 255)\<close>, kept in the
  8-bit buffer by the array's store.
\<close>

definition channel_index :: "nat \<Rightarrow> int \<Rightarrow> int \<Rightarrow> nat \<Rightarrow> nat" where
  "channel_index w x y c = nat ((y * int w + x) * 4 + int c)"

definition spec_kernel :: "(int \<times> int \<times> real) list" where
  "spec_kernel = [(1, 0, 7), (- 1, 1, 3), (0, 1, 5), (1, 1, 1)]"

definition within_bounds :: "nat \<Rightarrow> nat \<Rightarrow> int \<Rightarrow> int \<Rightarrow> bool" where
  "within_bounds w h x y = (0 \<le> x \<and> x < int w \<and> 0 \<le> y \<and> y < int h)"

definition spec_clamp :: "real \<Rightarrow> real \<Rightarrow> real \<Rightarrow> real" where
  "spec_clamp v lo hi = max lo (min hi v)"

definition spec_write_neighbor :: "nat \<Rightarrow> nat \<Rightarrow> int \<Rightarrow> int \<Rightarrow> int list \<Rightarrow> byte list \<Rightarrow> int \<times> int \<times> real \<Rightarrow> byte list" where
  "spec_write_neighbor w h x y err buf n =
     (case n of (dx, dy, weight) \<Rightarrow>
        if within_bounds w h (x + dx) (y + dy)
        then fold (\<lambda>c buf.
                     buf[channel_index w (x + dx) (y + dy) c :=
                           ToUint8Clamp (spec_clamp
                             (of_int (uint (buf ! channel_index w (x + dx) (y + dy) c)) +
                              of_int (err ! c) * weight / 16) 0 255)])
               [0, 1, 2] buf
        else buf)"

definition spec_pixel :: "nat \<Rightarrow> nat \<Rightarrow> string list \<Rightarrow> int \<times> int \<Rightarrow> byte list \<Rightarrow> byte list" where
  "spec_pixel w h pal p buf =
     (case p of (x, y) \<Rightarrow>
        let cur = map (\<lambda>c. uint (buf ! channel_index w x y c)) [0, 1, 2]
        in case findClosestColor (cur ! 0) (cur ! 1) (cur ! 2) pal of
             (qr, qg, qb) \<Rightarrow>
               let q = [qr, qg, qb];
                   buf1 = fold (\<lambda>c b. b[channel_index w x y c := ToUint8Clamp (of_int (q ! c))]) [0, 1, 2] buf;
                   err = map (\<lambda>c. cur ! c - q ! c) [0, 1, 2]
               in fold (\<lambda>n b. spec_write_neighbor w h x y err b n) spec_kernel buf1)"

definition row_major :: "nat \<Rightarrow> nat \<Rightarrow> (int \<times> int) list" where
  "row_major w h = concat (map (\<lambda>y. map (\<lambda>x. (int x, int y)) [0..<w]) [0..<h])"

definition spec_dither :: "nat \<Rightarrow> nat \<Rightarrow> string list \<Rightarrow> byte list \<Rightarrow> byte list" where
  "spec_dither w h pal buf = fold (spec_pixel w h pal) (row_major w h) buf"

section \<open>Notions used in the statements and proofs\<close>

definition parseColor :: "string \<Rightarrow> rgb option" where
  \<comment> \<open>the three \<open>parseInt\<close> calls of the loop body, together\<close>
  "parseColor color =
     (case (parseInt16 (str_slice color 1 3), parseInt16 (str_slice color 3 5),
            parseInt16 (str_slice color 5 7)) of
        (Some pr, Some pg, Some pb) \<Rightarrow> Some (pr, pg, pb)
      | _ \<Rightarrow> None)"

definition hex_color :: "string \<Rightarrow> bool" where
  \<comment> \<open>a palette entry as the interface documents it: \<open>#RRGGBB\<close>\<close>
  "hex_color color =
     (length color = 7 \<and> hd color = CHR ''#'' \<and> list_all (\<lambda>c. hexDigit c \<noteq> None) (tl color))"

definition distance :: "int \<Rightarrow> int \<Rightarrow> int \<Rightarrow> rgb \<Rightarrow> real" where
  \<comment> \<open>the Euclidean distance of the loop body\<close>
  "distance r g b p = (case p of (pr, pg, pb) \<Rightarrow> sqrt (of_int ((r - pr)\<^sup>2 + (g - pg)\<^sup>2 + (b - pb)\<^sup>2)))"

definition below :: "real \<Rightarrow> real option \<Rightarrow> bool" where
  \<comment> \<open>\<open>distance < minDistance\<close>, with \<^const>\<open>None\<close> for \<open>Infinity\<close>\<close>
  "below d minDistance = (case minDistance of None \<Rightarrow> True | Some m \<Rightarrow> d < m)"

fun findClosestColor_sq :: "int \<Rightarrow> int \<Rightarrow> int \<Rightarrow> string list \<Rightarrow> int option \<times> rgb \<Rightarrow> int option \<times> rgb" where
  \<comment> \<open>The same scan on squared distances, for evaluation: the square root is monotone.\<close>
  "findClosestColor_sq r g b [] st = st"
| "findClosestColor_sq r g b (color # pal) (minSq, closest) =
     (case parseColor color of
        Some (pr, pg, pb) \<Rightarrow>
          (let sq = (r - pr)\<^sup>2 + (g - pg)\<^sup>2 + (b - pb)\<^sup>2
           in if (case minSq of None \<Rightarrow> True | Some m \<Rightarrow> sq < m)
              then findClosestColor_sq r g b pal (Some sq, (pr, pg, pb))
              else findClosestColor_sq r g b pal (minSq, closest))
      | None \<Rightarrow> findClosestColor_sq r g b pal (minSq, closest))"

text \<open>
  What the scan of a palette does to its state \<open>(minDistance, closest)\<close>: it leaves the
  state alone when no entry is below \<open>minDistance\<close>, and else ends at the first entry of
  least distance.
\<close>

definition scan_post :: "int \<Rightarrow> int \<Rightarrow> int \<Rightarrow> string list \<Rightarrow> real option \<times> rgb \<Rightarrow> real option \<times> rgb \<Rightarrow> bool" where
  "scan_post r g b pal st st' =
     (case (st, st') of ((md, cl), (md', cl')) \<Rightarrow>
       ((\<forall>j<length pal. \<forall>q. parseColor (pal ! j) = Some q \<longrightarrow> \<not> below (distance r g b q) md) \<and>
          md' = md \<and> cl' = cl) \<or>
       (\<exists>i<length pal. parseColor (pal ! i) = Some cl' \<and> md' = Some (distance r g b cl') \<and>
          below (distance r g b cl') md \<and>
          (\<forall>j<length pal. \<forall>q. parseColor (pal ! j) = Some q \<longrightarrow> distance r g b cl' \<le> distance r g b q) \<and>
          (\<forall>j<i. \<forall>q. parseColor (pal ! j) = Some q \<longrightarrow> distance r g b cl' < distance r g b q)))"

text \<open>
  The pixel with row-major number \<open>k\<close>, the three colour bytes of a pixel, and what the
  ditherer stores at a pixel when it reads the values \<open>d\<close> there.
\<close>

definition fs_step :: "nat \<Rightarrow> nat \<Rightarrow> string list \<Rightarrow> nat \<Rightarrow> byte list \<Rightarrow> byte list" where
  "fs_step w h pal k outputData = fs_pixel w h pal (k div w) (k mod w) outputData"

definition pixel_rgb :: "byte list \<Rightarrow> nat \<Rightarrow> byte list" where
  "pixel_rgb d k = [d ! (k * 4), d ! (k * 4 + 1), d ! (k * 4 + 2)]"

definition pixel :: "byte list \<Rightarrow> nat \<Rightarrow> byte list" where
  "pixel d k = [d ! (k * 4), d ! (k * 4 + 1), d ! (k * 4 + 2), d ! (k * 4 + 3)]"

definition quantized :: "string list \<Rightarrow> byte list \<Rightarrow> nat \<Rightarrow> byte list" where
  "quantized pal d k =
     (case findClosestColor (uint (d ! (k * 4))) (uint (d ! (k * 4 + 1))) (uint (d ! (k * 4 + 2))) pal of
        (newR, newG, newB) \<Rightarrow>
          [ToUint8Clamp (of_int newR), ToUint8Clamp (of_int newG), ToUint8Clamp (of_int newB)])"

definition fs_targets :: "nat \<Rightarrow> nat \<Rightarrow> nat \<Rightarrow> nat \<Rightarrow> (bool \<times> nat \<times> real) list" where
  "fs_targets w h y x =
     [(x + 1 < w, (y * w + (x + 1)) * 4, 7),
      (x > 0 \<and> y + 1 < h, ((y + 1) * w + (x - 1)) * 4, 3),
      (y + 1 < h, ((y + 1) * w + x) * 4, 5),
      (x + 1 < w \<and> y + 1 < h, ((y + 1) * w + (x + 1)) * 4, 1)]"

definition diffuse_all :: "(bool \<times> nat \<times> real) list \<Rightarrow> rgb \<Rightarrow> byte list \<Rightarrow> byte list" where
  "diffuse_all ts err out = fold (\<lambda>(c, i, k) out. if c then diffuse3 out i err k else out) ts out"

definition dithered_pixels :: "(ImageData \<times> heap) option \<Rightarrow> byte list" where
  "dithered_pixels res = (case res of Some (outp, hp') \<Rightarrow> hp' ! data outp | None \<Rightarrow> [])"

definition cachedPixels :: "App option \<Rightarrow> byte list option" where
  "cachedPixels res =
     (case res of
        Some app \<Rightarrow> map_option (\<lambda>img. arrays app ! data img) (cachedRawImageRef app)
      | None \<Rightarrow> None)"

definition outputPixels :: "App option \<Rightarrow> byte list option" where
  "outputPixels res =
     (case res of
        Some app \<Rightarrow> map_option (\<lambda>img. arrays app ! data img) (processedImageData (previewState app))
      | None \<Rightarrow> None)"

section \<open>Inputs of the examples\<close>

text \<open>
  The 4 by 4 gray image; a host whose document is one pixel, with levels that are not the
  identity, and the component after each of three runs on it; a host whose capture is as wide
  as the scale, and the component after the runs on it.
\<close>

definition gray4x4 :: "byte list" where
  "gray4x4 = concat (replicate 16 [128, 128, 128, 255])"

definition onePixelHost :: host where
  "onePixelHost scale = Some (1, 1, [100, 100, 100, 255])"

definition narrowLevels :: LevelsSettings where
  "narrowLevels = \<lparr>blackPoint = 0, midPoint = 1, whitePoint = 204\<rparr>"

definition after_capture :: App where
  "after_capture =
     \<lparr>previewState =
        \<lparr>processingScale = 10, algorithm = FloydSteinberg, levels = narrowLevels,
         palette = DEFAULT_PALETTE, livePreview = True,
         processedImageData = Some \<lparr>width = 1, height = 1, data = 1\<rparr>\<rparr>,
      cachedRawImageRef = Some \<lparr>width = 1, height = 1, data = 0\<rparr>,
      arrays = [[125, 125, 125, 255], [0, 0, 0, 255]], clock = 0,
      liveTimeout = None, scaleTimeout = None\<rparr>"

definition after_second :: App where
  "after_second =
     \<lparr>previewState =
        \<lparr>processingScale = 10, algorithm = FloydSteinberg, levels = narrowLevels,
         palette = DEFAULT_PALETTE, livePreview = True,
         processedImageData = Some \<lparr>width = 1, height = 1, data = 2\<rparr>\<rparr>,
      cachedRawImageRef = Some \<lparr>width = 1, height = 1, data = 0\<rparr>,
      arrays = [[156, 156, 156, 255], [0, 0, 0, 255], [255, 255, 255, 255]], clock = 300,
      liveTimeout = None, scaleTimeout = None\<rparr>"

definition after_third :: App where
  "after_third =
     \<lparr>previewState =
        \<lparr>processingScale = 10, algorithm = FloydSteinberg, levels = narrowLevels,
         palette = DEFAULT_PALETTE, livePreview = True,
         processedImageData = Some \<lparr>width = 1, height = 1, data = 3\<rparr>\<rparr>,
      cachedRawImageRef = Some \<lparr>width = 1, height = 1, data = 0\<rparr>,
      arrays = [[195, 195, 195, 255], [0, 0, 0, 255], [255, 255, 255, 255], [255, 255, 255, 255]],
      clock = 600, liveTimeout = None, scaleTimeout = None\<rparr>"

definition scaledHost :: host where
  "scaledHost scale = Some (scale, 1, replicate (scale * 4) 128)"

definition captured10 :: "byte list" where
  "captured10 = replicate 40 128"

definition scale10_cached :: App where
  "scale10_cached =
     \<lparr>previewState =
        \<lparr>processingScale = 10, algorithm = FloydSteinberg, levels = DEFAULT_LEVELS,
         palette = DEFAULT_PALETTE, livePreview = True,
         processedImageData = Some \<lparr>width = 10, height = 1, data = 1\<rparr>\<rparr>,
      cachedRawImageRef = Some \<lparr>width = 10, height = 1, data = 0\<rparr>,
      arrays = [captured10, fs_loop 10 1 DEFAULT_PALETTE captured10], clock = 0,
      liveTimeout = None, scaleTimeout = None\<rparr>"

definition scale20_stale :: App where
  "scale20_stale =
     \<lparr>previewState =
        \<lparr>processingScale = 20, algorithm = Atkinson, levels = DEFAULT_LEVELS,
         palette = DEFAULT_PALETTE, livePreview = True,
         processedImageData = Some \<lparr>width = 10, height = 1, data = 2\<rparr>\<rparr>,
      cachedRawImageRef = Some \<lparr>width = 10, height = 1, data = 0\<rparr>,
      arrays = [captured10, fs_loop 10 1 DEFAULT_PALETTE captured10,
                fs_loop 10 1 DEFAULT_PALETTE captured10],
      clock = 300, liveTimeout = None,
      scaleTimeout =
        Some (750, \<lparr>processingScale = 20, algorithm = Atkinson, levels = DEFAULT_LEVELS,
                    palette = DEFAULT_PALETTE, livePreview = True,
                    processedImageData = Some \<lparr>width = 10, height = 1, data = 1\<rparr>\<rparr>)\<rparr>"

section \<open>Rounding\<close>

lemma roundTiesToEven_near: "\<bar>of_int (roundTiesToEven y) - y\<bar> \<le> 1 / 2"
  unfolding roundTiesToEven_def Let_def by (auto simp: abs_le_iff)

lemma ToUint8Clamp_int:
  assumes "0 \<le> n" "n \<le> 255"
  shows "ToUint8Clamp (of_int n) = word_of_int n"
proof -
  have "min (max (real_of_int n) 0) 255 = real_of_int n"
    using assms by (simp add: min_def max_def)
  then show ?thesis
    by (simp add: ToUint8Clamp_def roundTiesToEven_def Let_def)
qed

lemma ToUint8Clamp_byte: "ToUint8Clamp (of_int (uint (c::byte))) = c"
proof -
  have "0 \<le> uint c" "uint c \<le> 255" using uint_bounded [of c] by simp_all
  then have "ToUint8Clamp (of_int (uint c)) = word_of_int (uint c)"
    by (rule ToUint8Clamp_int)
  then show ?thesis by simp
qed

lemma ToUint8Clamp_0 [simp]: "ToUint8Clamp 0 = 0"
  by (simp add: ToUint8Clamp_def roundTiesToEven_def)

lemma ToUint8Clamp_255 [simp]: "ToUint8Clamp 255 = 255"
  by (simp add: ToUint8Clamp_def roundTiesToEven_def)

lemma ToUint8Clamp_near:
  "\<bar>real_of_int (uint (ToUint8Clamp x)) - min (max x 0) 255\<bar> \<le> 1 / 2"
proof -
  define c where "c = min (max x 0) 255"
  define n where "n = roundTiesToEven c"
  have c: "0 \<le> c" "c \<le> 255" by (simp_all add: c_def)
  have near: "\<bar>real_of_int n - c\<bar> \<le> 1 / 2"
    unfolding n_def by (rule roundTiesToEven_near)
  have "- 1 < real_of_int n" "real_of_int n < 256" using near c by linarith+
  then have n: "0 \<le> n" "n < 256" by linarith+
  have "uint (word_of_int n :: byte) = n"
    using n by (simp add: uint_word_of_int take_bit_int_eq_self)
  then show ?thesis
    using near by (simp add: ToUint8Clamp_def c_def n_def)
qed

section \<open>The levels curve\<close>

lemma applyLevels_below: "v \<le> black \<Longrightarrow> applyLevels v black m white = Some 0"
  by (simp add: applyLevels_def)

lemma applyLevels_above:
  "black < v \<Longrightarrow> white \<le> v \<Longrightarrow> applyLevels v black m white = Some 255"
  by (simp add: applyLevels_def)

lemma applyLevels_between:
  assumes "black < v" "v < white" "m \<noteq> 0"
  shows "applyLevels v black m white =
           Some (Math_round ((of_int (v - black) / of_int (white - black)) powr (1 / m) * 255))"
proof -
  have pos: "(0::real) < of_int (v - black) / of_int (white - black)"
    using assms by simp
  have ne: "(of_int (white - black) :: real) \<noteq> 0"
    using assms by simp
  show ?thesis
    using assms pos ne by (simp add: applyLevels_def js_div_def Math_pow_def)
qed

lemma applyLevels_identity: "applyLevels v 0 1 255 = Some (if v \<le> 0 then 0 else if 255 \<le> v then 255 else v)"
proof -
  consider "v \<le> 0" | "255 \<le> v" "0 < v" | "0 < v" "v < 255" by linarith
  then show ?thesis
  proof cases
    case 3
    then have "applyLevels v 0 1 255 = Some (Math_round ((of_int v / 255) powr 1 * 255))"
      using applyLevels_between [of 0 "v" 255 1] by simp
    moreover have "(of_int v / 255 :: real) powr 1 = of_int v / 255"
      using 3 by simp
    ultimately show ?thesis using 3 by (simp add: Math_round_def)
  qed (simp_all add: applyLevels_below applyLevels_above)
qed

text \<open>
  C6, as the claim states it: for a value in 0..255 the curve returns 0 at or below the
  black point and 255 at or above the white point. The second half fails where both guards
  hold, since the black point's return comes first: at black = white = value = 100 the result
  is 0.
\<close>

theorem C6_counterexample:
  "(100::int) \<in> {0..255} \<and> (100::int) \<ge> 100 \<and> applyLevels 100 100 1 100 \<noteq> Some 255"
  by (simp add: applyLevels_def)

text \<open>
  C6, amended: the curve returns 0 whenever the value is at or below the black point, and 255
  whenever the value is at or above the white point and above the black point.
\<close>

theorem C6_levels_clamp:
  "(v \<le> black \<longrightarrow> applyLevels v black m white = Some 0) \<and>
   (white \<le> v \<and> black < v \<longrightarrow> applyLevels v black m white = Some 255)"
  by (simp add: applyLevels_def)

text \<open>
  Witness of C6: black point 50, white point 200, gamma 2, at the values 10 and 230.
\<close>

theorem C6_levels_clamp_witness:
  "(10::int) \<le> 50 \<and> applyLevels 10 50 2 200 = Some 0 \<and>
   (200::int) \<le> 230 \<and> (50::int) < 230 \<and> applyLevels 230 50 2 200 = Some 255"
  using C6_levels_clamp [of 10 50 2 200] C6_levels_clamp [of 230 50 2 200] by simp

text \<open>
  C7: with a gamma other than zero the curve always returns a finite number. The
  normalisation is reached only strictly between the two points, where its divisor is
  positive, so it never divides by zero. When the black point is at or above the white point
  the result is 0 up to the black point and 255 beyond it.
\<close>

theorem C7_levels_total:
  "(m \<noteq> 0 \<longrightarrow> (\<exists>r. applyLevels v black m white = Some r)) \<and>
   (js_div (of_int (v - black)) (of_int (white - black)) = None \<longrightarrow>
      v \<le> black \<or> v \<ge> white) \<and>
   (\<not> v \<le> black \<and> \<not> v \<ge> white \<longrightarrow> 0 < white - black) \<and>
   (white \<le> black \<longrightarrow>
      applyLevels v black m white = (if v \<le> black then Some 0 else Some 255))"
proof (intro conjI impI)
  assume m: "m \<noteq> 0"
  consider "v \<le> black" | "black < v" "white \<le> v"
    | "black < v" "v < white" by linarith
  then show "\<exists>r. applyLevels v black m white = Some r"
    by cases (simp_all add: applyLevels_below applyLevels_above applyLevels_between m)
next
  assume "js_div (of_int (v - black)) (of_int (white - black)) = None"
  then have "white = black" by (simp add: js_div_def split: if_splits)
  then show "v \<le> black \<or> v \<ge> white" by linarith
next
  assume "\<not> v \<le> black \<and> \<not> v \<ge> white"
  then show "0 < white - black" by linarith
next
  assume "white \<le> black"
  then show "applyLevels v black m white = (if v \<le> black then Some 0 else Some 255)"
    by (simp add: applyLevels_def)
qed

text \<open>
  Witness of C7: black point and white point both 100, and the range 100..200 at value 150.
\<close>

theorem C7_levels_total_witness:
  "(2::real) \<noteq> 0 \<and> (\<exists>r. applyLevels 120 100 2 100 = Some r) \<and>
   (100::int) \<le> 100 \<and> applyLevels 120 100 2 100 = Some 255 \<and> applyLevels 100 100 2 100 = Some 0 \<and>
   \<not> (150::int) \<le> 100 \<and> \<not> (150::int) \<ge> 200 \<and> (0::int) < 200 - 100"
  using C7_levels_total [of 2 120 100 100] C7_levels_total [of 2 100 100 100]
    C7_levels_total [of 2 150 100 200]
  by simp

lemma applyLevels_store_default: "applyLevels_store DEFAULT_LEVELS c = Some c"
proof -
  have "0 \<le> uint c" "uint c < 256" using uint_bounded [of c] by simp_all
  then have "applyLevels (uint c) 0 1 255 = Some (uint c)"
    by (auto simp: applyLevels_identity)
  then show ?thesis
    using ToUint8Clamp_byte [of c] by (simp add: applyLevels_store_def DEFAULT_LEVELS_def)
qed

lemma applyLevels_loop_default: "applyLevels_loop DEFAULT_LEVELS d = Some d"
  by (induction DEFAULT_LEVELS d rule: applyLevels_loop.induct)
    (simp_all add: applyLevels_store_default)

section \<open>The palette matcher\<close>

subsection \<open>Squared distances decide the same comparisons\<close>

lemma findClosestColor_loop_Cons:
  "findClosestColor_loop r g b (color # pal) (md, cl) =
     (case parseColor color of
        Some p \<Rightarrow>
          if (case md of None \<Rightarrow> True | Some m \<Rightarrow> distance r g b p < m)
          then findClosestColor_loop r g b pal (Some (distance r g b p), p)
          else findClosestColor_loop r g b pal (md, cl)
      | None \<Rightarrow> findClosestColor_loop r g b pal (md, cl))"
  by (auto simp: parseColor_def distance_def Let_def split: option.splits)

lemma findClosestColor_sq_loop:
  "findClosestColor_loop r g b pal (map_option (\<lambda>n. sqrt (of_int n)) md, cl) =
     (case findClosestColor_sq r g b pal (md, cl) of
        (md', cl') \<Rightarrow> (map_option (\<lambda>n. sqrt (of_int n)) md', cl'))"
proof -
  define f where "f = (\<lambda>n::int. sqrt (of_int n))"
  have f_less: "f a < f c \<longleftrightarrow> a < c" for a c by (simp add: f_def)
  have "findClosestColor_loop r g b pal (map_option f md, cl) =
     (case findClosestColor_sq r g b pal (md, cl) of (md', cl') \<Rightarrow> (map_option f md', cl'))"
  proof (induction pal arbitrary: md cl)
    case Nil
    then show ?case by simp
  next
    case (Cons color pal)
    show ?case
    proof (cases "parseColor color")
      case None
      then show ?thesis using Cons.IH [of md cl]
        by (simp add: findClosestColor_loop_Cons del: findClosestColor_loop.simps)
    next
      case (Some p)
      obtain pr pg pb where p: "p = (pr, pg, pb)" by (cases p) auto
      define sq where "sq = (r - pr)\<^sup>2 + (g - pg)\<^sup>2 + (b - pb)\<^sup>2"
      have d: "distance r g b p = f sq" by (simp add: p distance_def f_def sq_def)
      have sq_step: "findClosestColor_sq r g b (color # pal) (md, cl) =
          (if (case md of None \<Rightarrow> True | Some m \<Rightarrow> sq < m)
           then findClosestColor_sq r g b pal (Some sq, p)
           else findClosestColor_sq r g b pal (md, cl))"
        using Some unfolding sq_def by (simp add: p Let_def)
      have step: "findClosestColor_loop r g b (color # pal) (map_option f md, cl) =
          (if (case md of None \<Rightarrow> True | Some m \<Rightarrow> sq < m)
           then findClosestColor_loop r g b pal (map_option f (Some sq), p)
           else findClosestColor_loop r g b pal (map_option f md, cl))"
        using Some by (cases md) (simp_all add: findClosestColor_loop_Cons d f_less del: findClosestColor_loop.simps)
      show ?thesis
        unfolding step sq_step using Cons.IH [of "Some sq" p] Cons.IH [of md cl] by simp
    qed
  qed
  then show ?thesis by (simp add: f_def)
qed

lemma findClosestColor_code [code]:
  "findClosestColor r g b pal = snd (findClosestColor_sq r g b pal (None, (0, 0, 0)))"
  using findClosestColor_sq_loop [of r g b pal None "(0, 0, 0)"]
  by (simp add: findClosestColor_def split: prod.splits)

subsection \<open>The scan returns the first entry of least distance\<close>

lemma all_less_Suc: "(\<forall>j<Suc i. P j) \<longleftrightarrow> P 0 \<and> (\<forall>j<i. P (Suc j))"
  by (auto simp: less_Suc_eq_0_disj)

lemma findClosestColor_loop_step:
  "findClosestColor_loop r g b (color # pal) (md, cl) =
     (case parseColor color of
        Some p \<Rightarrow>
          if below (distance r g b p) md
          then findClosestColor_loop r g b pal (Some (distance r g b p), p)
          else findClosestColor_loop r g b pal (md, cl)
      | None \<Rightarrow> findClosestColor_loop r g b pal (md, cl))"
  by (simp add: findClosestColor_loop_Cons below_def del: findClosestColor_loop.simps split: option.splits)

lemma scan_post_skip:
  assumes "scan_post r g b pal (md, cl) st'"
    and "\<forall>q. parseColor color = Some q \<longrightarrow> \<not> below (distance r g b q) md"
  shows "scan_post r g b (color # pal) (md, cl) st'"
proof -
  obtain md' cl' where st': "st' = (md', cl')" by (cases st')
  from assms(1) show ?thesis
    unfolding scan_post_def st' prod.case
  proof (elim disjE exE conjE)
    assume "\<forall>j<length pal. \<forall>q. parseColor (pal ! j) = Some q \<longrightarrow> \<not> below (distance r g b q) md"
      "md' = md" "cl' = cl"
    then show "(\<forall>j<length (color # pal). \<forall>q. parseColor ((color # pal) ! j) = Some q \<longrightarrow> \<not> below (distance r g b q) md) \<and> md' = md \<and> cl' = cl \<or>
       (\<exists>i<length (color # pal). parseColor ((color # pal) ! i) = Some cl' \<and> md' = Some (distance r g b cl') \<and>
          below (distance r g b cl') md \<and>
          (\<forall>j<length (color # pal). \<forall>q. parseColor ((color # pal) ! j) = Some q \<longrightarrow> distance r g b cl' \<le> distance r g b q) \<and>
          (\<forall>j<i. \<forall>q. parseColor ((color # pal) ! j) = Some q \<longrightarrow> distance r g b cl' < distance r g b q))"
      using assms(2) by (simp add: all_less_Suc del: split_paired_All)
  next
    fix i
    assume i: "i < length pal" "parseColor (pal ! i) = Some cl'" "md' = Some (distance r g b cl')"
      "below (distance r g b cl') md"
      "\<forall>j<length pal. \<forall>q. parseColor (pal ! j) = Some q \<longrightarrow> distance r g b cl' \<le> distance r g b q"
      "\<forall>j<i. \<forall>q. parseColor (pal ! j) = Some q \<longrightarrow> distance r g b cl' < distance r g b q"
    have hd: "\<forall>q. parseColor color = Some q \<longrightarrow> distance r g b cl' < distance r g b q"
      using assms(2) i(4) by (cases md) (auto simp: below_def)
    have "Suc i < length (color # pal) \<and> parseColor ((color # pal) ! Suc i) = Some cl' \<and> md' = Some (distance r g b cl') \<and>
          below (distance r g b cl') md \<and>
          (\<forall>j<length (color # pal). \<forall>q. parseColor ((color # pal) ! j) = Some q \<longrightarrow> distance r g b cl' \<le> distance r g b q) \<and>
          (\<forall>j<Suc i. \<forall>q. parseColor ((color # pal) ! j) = Some q \<longrightarrow> distance r g b cl' < distance r g b q)"
      using i hd by (simp add: all_less_Suc less_imp_le del: split_paired_All)
    then show "(\<forall>j<length (color # pal). \<forall>q. parseColor ((color # pal) ! j) = Some q \<longrightarrow> \<not> below (distance r g b q) md) \<and> md' = md \<and> cl' = cl \<or>
       (\<exists>i<length (color # pal). parseColor ((color # pal) ! i) = Some cl' \<and> md' = Some (distance r g b cl') \<and>
          below (distance r g b cl') md \<and>
          (\<forall>j<length (color # pal). \<forall>q. parseColor ((color # pal) ! j) = Some q \<longrightarrow> distance r g b cl' \<le> distance r g b q) \<and>
          (\<forall>j<i. \<forall>q. parseColor ((color # pal) ! j) = Some q \<longrightarrow> distance r g b cl' < distance r g b q))"
      by blast
  qed
qed

lemma scan_post_take:
  assumes "scan_post r g b pal (Some (distance r g b p), p) st'"
    and "parseColor color = Some p" and "below (distance r g b p) md"
  shows "scan_post r g b (color # pal) (md, cl) st'"
proof -
  obtain md' cl' where st': "st' = (md', cl')" by (cases st')
  let ?goal = "(\<forall>j<length (color # pal). \<forall>q. parseColor ((color # pal) ! j) = Some q \<longrightarrow> \<not> below (distance r g b q) md) \<and> md' = md \<and> cl' = cl \<or>
       (\<exists>i<length (color # pal). parseColor ((color # pal) ! i) = Some cl' \<and> md' = Some (distance r g b cl') \<and>
          below (distance r g b cl') md \<and>
          (\<forall>j<length (color # pal). \<forall>q. parseColor ((color # pal) ! j) = Some q \<longrightarrow> distance r g b cl' \<le> distance r g b q) \<and>
          (\<forall>j<i. \<forall>q. parseColor ((color # pal) ! j) = Some q \<longrightarrow> distance r g b cl' < distance r g b q))"
  from assms(1) have ?goal
    unfolding scan_post_def st' prod.case
  proof (elim disjE exE conjE)
    assume keep: "\<forall>j<length pal. \<forall>q. parseColor (pal ! j) = Some q \<longrightarrow>
        \<not> below (distance r g b q) (Some (distance r g b p))"
      "md' = Some (distance r g b p)" "cl' = p"
    have "0 < length (color # pal) \<and> parseColor ((color # pal) ! 0) = Some cl' \<and> md' = Some (distance r g b cl') \<and>
          below (distance r g b cl') md \<and>
          (\<forall>j<length (color # pal). \<forall>q. parseColor ((color # pal) ! j) = Some q \<longrightarrow> distance r g b cl' \<le> distance r g b q) \<and>
          (\<forall>j<0. \<forall>q. parseColor ((color # pal) ! j) = Some q \<longrightarrow> distance r g b cl' < distance r g b q)"
      using keep assms(2,3) by (simp add: all_less_Suc below_def not_less del: split_paired_All)
    then show ?goal by blast
  next
    fix i
    assume i: "i < length pal" "parseColor (pal ! i) = Some cl'" "md' = Some (distance r g b cl')"
      "below (distance r g b cl') (Some (distance r g b p))"
      "\<forall>j<length pal. \<forall>q. parseColor (pal ! j) = Some q \<longrightarrow> distance r g b cl' \<le> distance r g b q"
      "\<forall>j<i. \<forall>q. parseColor (pal ! j) = Some q \<longrightarrow> distance r g b cl' < distance r g b q"
    have lt: "distance r g b cl' < distance r g b p"
      using i(4) by (simp add: below_def)
    have bl: "below (distance r g b cl') md"
      using lt assms(3) by (cases md) (auto simp: below_def)
    have "Suc i < length (color # pal) \<and> parseColor ((color # pal) ! Suc i) = Some cl' \<and> md' = Some (distance r g b cl') \<and>
          below (distance r g b cl') md \<and>
          (\<forall>j<length (color # pal). \<forall>q. parseColor ((color # pal) ! j) = Some q \<longrightarrow> distance r g b cl' \<le> distance r g b q) \<and>
          (\<forall>j<Suc i. \<forall>q. parseColor ((color # pal) ! j) = Some q \<longrightarrow> distance r g b cl' < distance r g b q)"
      using i lt bl assms(2) by (simp add: all_less_Suc less_imp_le del: split_paired_All)
    then show ?goal by blast
  qed
  then show ?thesis unfolding scan_post_def st' prod.case .
qed

lemma findClosestColor_loop_post:
  "scan_post r g b pal (md, cl) (findClosestColor_loop r g b pal (md, cl))"
proof (induction pal arbitrary: md cl)
  case Nil
  show ?case by (simp add: scan_post_def)
next
  case (Cons color pal)
  show ?case
  proof (cases "parseColor color")
    case None
    then show ?thesis
      using scan_post_skip [OF Cons.IH [of md cl], of color]
      by (simp add: findClosestColor_loop_step del: findClosestColor_loop.simps)
  next
    case (Some p)
    show ?thesis
    proof (cases "below (distance r g b p) md")
      case True
      then show ?thesis
        using scan_post_take [OF Cons.IH [of "Some (distance r g b p)" p] Some True] Some
        by (simp add: findClosestColor_loop_step del: findClosestColor_loop.simps)
    next
      case False
      then show ?thesis
        using scan_post_skip [OF Cons.IH [of md cl], of color] Some
        by (simp add: findClosestColor_loop_step del: findClosestColor_loop.simps)
    qed
  qed
qed

lemma hexDigit_plain:
  assumes "hexDigit c \<noteq> None"
  shows "\<not> isWhiteSpace c" "c \<noteq> CHR ''-''" "c \<noteq> CHR ''+''" "c \<noteq> CHR ''x''" "c \<noteq> CHR ''X''"
  using assms by (auto simp: hexDigit_def isWhiteSpace_def Let_def split: if_splits)

lemma parseInt16_two_digits:
  assumes "hexDigit a \<noteq> None" "hexDigit c \<noteq> None"
  shows "parseInt16 [a, c] = Some (int (the (hexDigit a) * 16 + the (hexDigit c)))"
  using assms hexDigit_plain [OF assms(1)] hexDigit_plain [OF assms(2)]
  by (simp add: parseInt16_def)

lemma hex_color_parses:
  assumes "hex_color color"
  shows "parseColor color \<noteq> None"
proof -
  from assms obtain h a1 a2 a3 a4 a5 a6 where c: "color = [h, a1, a2, a3, a4, a5, a6]"
    by (auto simp: hex_color_def eval_nat_numeral length_Suc_conv)
  with assms have d: "hexDigit a1 \<noteq> None" "hexDigit a2 \<noteq> None" "hexDigit a3 \<noteq> None"
    "hexDigit a4 \<noteq> None" "hexDigit a5 \<noteq> None" "hexDigit a6 \<noteq> None"
    by (simp_all add: hex_color_def)
  have "str_slice color 1 3 = [a1, a2]" "str_slice color 3 5 = [a3, a4]" "str_slice color 5 7 = [a5, a6]"
    by (simp_all add: c str_slice_def eval_nat_numeral)
  then show ?thesis
    using d by (simp add: parseColor_def parseInt16_two_digits)
qed

text \<open>
  C5: for every colour and every non-empty palette of \<open>#RRGGBB\<close> entries, the matcher
  returns a palette entry whose Euclidean distance to the colour is least, and every entry
  before it in the palette is strictly farther; for the palette black, white the colour
  (127,127,127) gives (0,0,0).
\<close>

theorem C5_closest_color:
  "(pal \<noteq> [] \<and> list_all hex_color pal \<longrightarrow>
      (\<exists>i<length pal.
         parseColor (pal ! i) = Some (findClosestColor r g b pal) \<and>
         (\<forall>j<length pal. \<forall>q. parseColor (pal ! j) = Some q \<longrightarrow>
            distance r g b (findClosestColor r g b pal) \<le> distance r g b q) \<and>
         (\<forall>j<i. \<forall>q. parseColor (pal ! j) = Some q \<longrightarrow>
            distance r g b (findClosestColor r g b pal) < distance r g b q))) \<and>
   findClosestColor 127 127 127 [''#000000'', ''#FFFFFF''] = (0, 0, 0)"
proof (intro conjI impI)
  assume a: "pal \<noteq> [] \<and> list_all hex_color pal"
  obtain md' cl' where res: "findClosestColor_loop r g b pal (None, (0, 0, 0)) = (md', cl')"
    by (cases "findClosestColor_loop r g b pal (None, (0, 0, 0))")
  have cl': "findClosestColor r g b pal = cl'"
    by (simp add: findClosestColor_def res)
  from a have "hex_color (pal ! 0)" "0 < length pal"
    by (simp_all add: list_all_length)
  then obtain q0 where "parseColor (pal ! 0) = Some q0"
    using hex_color_parses by blast
  then have "\<not> (\<forall>j<length pal. \<forall>q. parseColor (pal ! j) = Some q \<longrightarrow> \<not> below (distance r g b q) None)"
    using \<open>0 < length pal\<close> by (simp add: below_def del: split_paired_All split_paired_Ex) blast
  with findClosestColor_loop_post [of r g b pal None "(0, 0, 0)"]
  show "\<exists>i<length pal.
         parseColor (pal ! i) = Some (findClosestColor r g b pal) \<and>
         (\<forall>j<length pal. \<forall>q. parseColor (pal ! j) = Some q \<longrightarrow>
            distance r g b (findClosestColor r g b pal) \<le> distance r g b q) \<and>
         (\<forall>j<i. \<forall>q. parseColor (pal ! j) = Some q \<longrightarrow>
            distance r g b (findClosestColor r g b pal) < distance r g b q)"
    unfolding res cl' scan_post_def prod.case by blast
next
  show "findClosestColor 127 127 127 [''#000000'', ''#FFFFFF''] = (0, 0, 0)"
    by code_simp
qed

text \<open>
  Witness of C5: the palette black, white and the colour (250,250,250).
\<close>

theorem C5_closest_color_witness:
  "[''#000000'', ''#FFFFFF''] \<noteq> [] \<and> list_all hex_color [''#000000'', ''#FFFFFF''] \<and>
   (\<exists>i<length [''#000000'', ''#FFFFFF''].
      parseColor ([''#000000'', ''#FFFFFF''] ! i) = Some (findClosestColor 250 250 250 [''#000000'', ''#FFFFFF'']) \<and>
      (\<forall>j<length [''#000000'', ''#FFFFFF'']. \<forall>q. parseColor ([''#000000'', ''#FFFFFF''] ! j) = Some q \<longrightarrow>
         distance 250 250 250 (findClosestColor 250 250 250 [''#000000'', ''#FFFFFF'']) \<le> distance 250 250 250 q) \<and>
      (\<forall>j<i. \<forall>q. parseColor ([''#000000'', ''#FFFFFF''] ! j) = Some q \<longrightarrow>
         distance 250 250 250 (findClosestColor 250 250 250 [''#000000'', ''#FFFFFF'']) < distance 250 250 250 q))"
proof -
  have h: "[''#000000'', ''#FFFFFF''] \<noteq> [] \<and> list_all hex_color [''#000000'', ''#FFFFFF'']"
    by (simp add: hex_color_def hexDigit_def)
  from C5_closest_color [of "[''#000000'', ''#FFFFFF'']" 250 250 250] h
  show ?thesis by blast
qed

lemma findClosestColor_empty: "findClosestColor r g b [] = (0, 0, 0)"
  by (simp add: findClosestColor_def)

lemma parseColor_black: "parseColor ''#000000'' = Some (0, 0, 0)"
  by code_simp

lemma parseColor_white: "parseColor ''#FFFFFF'' = Some (255, 255, 255)"
  by code_simp

lemma findClosestColor_default:
  "findClosestColor r g b DEFAULT_PALETTE =
     (if (r - 255)\<^sup>2 + (g - 255)\<^sup>2 + (b - 255)\<^sup>2 < r\<^sup>2 + g\<^sup>2 + b\<^sup>2 then (255, 255, 255) else (0, 0, 0))"
  by (simp add: findClosestColor_code DEFAULT_PALETTE_def parseColor_black parseColor_white Let_def)

lemma quantized_empty: "quantized [] d k = [0, 0, 0]"
  by (simp add: quantized_def findClosestColor_empty)

lemma quantized_default: "quantized DEFAULT_PALETTE d k \<in> {[0, 0, 0], [255, 255, 255]}"
  by (simp add: quantized_def findClosestColor_default)

section \<open>The ditherer\<close>

subsection \<open>What one pixel step writes\<close>

lemma fs_index_in_range:
  fixes x y w h :: nat
  assumes "x < w" "y < h"
  shows "(y * w + x) * 4 + 3 < w * h * 4"
proof -
  have "y * w + x < y * w + w" using assms(1) by simp
  also have "\<dots> = Suc y * w" by simp
  also have "\<dots> \<le> h * w" using assms(2) by (intro mult_le_mono1) simp
  finally have "y * w + x < w * h" by (simp add: mult.commute)
  then show ?thesis by simp
qed

lemma length_diffuse [simp]: "length (diffuse out i e k) = length out"
  by (simp add: diffuse_def)

lemma length_diffuse3 [simp]: "length (diffuse3 out i err k) = length out"
  by (simp add: diffuse3_def split: prod.splits)

lemma diffuse3_nth_other:
  "j \<noteq> i \<Longrightarrow> j \<noteq> i + 1 \<Longrightarrow> j \<noteq> i + 2 \<Longrightarrow> diffuse3 out i err k ! j = out ! j"
  by (simp add: diffuse3_def diffuse_def split: prod.splits)

lemma length_diffuse_all [simp]: "length (diffuse_all ts err out) = length out"
  unfolding diffuse_all_def by (induction ts arbitrary: out) (auto split: prod.splits)

lemma diffuse_all_nth_other:
  assumes "\<forall>(c, i, k)\<in>set ts. c \<longrightarrow> j \<noteq> i \<and> j \<noteq> i + 1 \<and> j \<noteq> i + 2"
  shows "diffuse_all ts err out ! j = out ! j"
  using assms unfolding diffuse_all_def
  by (induction ts arbitrary: out) (auto simp: diffuse3_nth_other)

lemma fs_pixel_targets:
  "fs_pixel w h pal y x out =
     (case findClosestColor (uint (out ! ((y * w + x) * 4))) (uint (out ! ((y * w + x) * 4 + 1)))
             (uint (out ! ((y * w + x) * 4 + 2))) pal of
        (newR, newG, newB) \<Rightarrow>
          diffuse_all (fs_targets w h y x)
            (uint (out ! ((y * w + x) * 4)) - newR, uint (out ! ((y * w + x) * 4 + 1)) - newG,
             uint (out ! ((y * w + x) * 4 + 2)) - newB)
            (out[(y * w + x) * 4 := ToUint8Clamp (of_int newR),
                 (y * w + x) * 4 + 1 := ToUint8Clamp (of_int newG),
                 (y * w + x) * 4 + 2 := ToUint8Clamp (of_int newB)]))"
  by (simp only: fs_pixel_def fs_targets_def diffuse_all_def Let_def fold_simps prod.case o_apply id_apply)

lemma fs_targets_after:
  assumes "x < w" "(c, i, k) \<in> set (fs_targets w h y x)" "c"
  shows "(y * w + x) * 4 + 2 < i"
proof -
  have a: "y * w + x < y * w + (x + 1)" by simp
  have b: "0 < x \<Longrightarrow> y * w + x < (y + 1) * w + (x - 1)" using assms(1) by simp
  have c: "y * w + x < (y + 1) * w + x" using assms(1) by simp
  have d: "y * w + x < (y + 1) * w + (x + 1)" by simp
  have m: "p < q \<Longrightarrow> p * 4 + 2 < q * 4" for p q :: nat by simp
  from assms(2,3) consider "i = (y * w + (x + 1)) * 4" | "0 < x" "i = ((y + 1) * w + (x - 1)) * 4"
    | "i = ((y + 1) * w + x) * 4" | "i = ((y + 1) * w + (x + 1)) * 4"
    unfolding fs_targets_def by auto
  then show ?thesis
    using m [OF a] m [OF b] m [OF c] m [OF d] by cases simp_all
qed

lemma fs_targets_mod:
  assumes "(c, i, k) \<in> set (fs_targets w h y x)"
  shows "i mod 4 = 0"
  using assms unfolding fs_targets_def by auto

lemma length_fs_pixel [simp]: "length (fs_pixel w h pal y x out) = length out"
  by (simp add: fs_pixel_targets split: prod.splits)

lemma fs_pixel_nth_below:
  assumes "x < w" "j < (y * w + x) * 4"
  shows "fs_pixel w h pal y x out ! j = out ! j"
proof -
  have "\<forall>(c, i, k)\<in>set (fs_targets w h y x). c \<longrightarrow> j \<noteq> i \<and> j \<noteq> i + 1 \<and> j \<noteq> i + 2"
    using fs_targets_after [OF assms(1)] assms(2) by fastforce
  then have keep: "diffuse_all (fs_targets w h y x) err out' ! j = out' ! j" for err out'
    by (rule diffuse_all_nth_other)
  show ?thesis
    using assms(2) by (simp add: fs_pixel_targets keep split: prod.splits)
qed

lemma fs_pixel_nth_alpha:
  assumes "j mod 4 = 3"
  shows "fs_pixel w h pal y x out ! j = out ! j"
proof -
  have ne: "j \<noteq> i \<and> j \<noteq> i + 1 \<and> j \<noteq> i + 2" if "i mod 4 = 0" for i
    using that assms by presburger
  have "\<forall>(c, i, k)\<in>set (fs_targets w h y x). c \<longrightarrow> j \<noteq> i \<and> j \<noteq> i + 1 \<and> j \<noteq> i + 2"
  proof (clarify, intro conjI)
    fix c i k
    assume "(c, i, k) \<in> set (fs_targets w h y x)"
    then have "i mod 4 = 0" by (rule fs_targets_mod)
    from ne [OF this] show "j \<noteq> i" "j \<noteq> i + 1" "j \<noteq> i + 2" by simp_all
  qed
  then have keep: "diffuse_all (fs_targets w h y x) err out' ! j = out' ! j" for err out'
    by (rule diffuse_all_nth_other)
  have "((y * w + x) * 4) mod 4 = 0" by simp
  then have "j \<noteq> (y * w + x) * 4" "j \<noteq> (y * w + x) * 4 + 1" "j \<noteq> (y * w + x) * 4 + 2"
    using assms by presburger+
  then show ?thesis
    by (simp add: fs_pixel_targets keep split: prod.splits)
qed

lemma fs_pixel_own:
  assumes "x < w" "(y * w + x) * 4 + 2 < length out"
  shows "pixel_rgb (fs_pixel w h pal y x out) (y * w + x) = quantized pal out (y * w + x)"
proof -
  have "\<forall>(c, i, k)\<in>set (fs_targets w h y x). c \<longrightarrow> j \<noteq> i \<and> j \<noteq> i + 1 \<and> j \<noteq> i + 2"
    if "j \<le> (y * w + x) * 4 + 2" for j
    using fs_targets_after [OF assms(1)] that by fastforce
  then have keep: "diffuse_all (fs_targets w h y x) err out' ! j = out' ! j"
    if "j \<le> (y * w + x) * 4 + 2" for j err out'
    using that by (intro diffuse_all_nth_other) blast
  show ?thesis
    using assms(2)
    by (simp add: pixel_rgb_def quantized_def fs_pixel_targets keep split: prod.splits)
qed

subsection \<open>The two loops as one scan of the pixel numbers\<close>

lemma length_fs_step [simp]: "length (fs_step w h pal k out) = length out"
  by (simp add: fs_step_def)

lemma fs_step_nth_below:
  assumes "0 < w" "j < k * 4"
  shows "fs_step w h pal k out ! j = out ! j"
  using assms fs_pixel_nth_below [of "k mod w" w j "k div w" h pal out]
  by (simp add: fs_step_def)

lemma fs_step_nth_alpha: "j mod 4 = 3 \<Longrightarrow> fs_step w h pal k out ! j = out ! j"
  by (simp add: fs_step_def fs_pixel_nth_alpha)

lemma fs_step_own:
  assumes "0 < w" "k * 4 + 2 < length out"
  shows "pixel_rgb (fs_step w h pal k out) k = quantized pal out k"
  using assms fs_pixel_own [of "k mod w" w "k div w" out h pal]
  by (simp add: fs_step_def)

lemma fs_loop_flat: "fs_loop w h pal out = fold (fs_step w h pal) [0..<h * w] out"
proof -
  have row: "fold (fs_pixel w h pal y) [0..<w] o1 = fold (fs_step w h pal) [y * w..<y * w + w] o1" for y o1
  proof -
    have "[y * w..<y * w + w] = map (\<lambda>x. y * w + x) [0..<w]"
      using map_add_upt [of "y * w" w] by (simp add: add.commute [of _ "y * w"])
    moreover have "fold (fs_step w h pal) (map (\<lambda>x. y * w + x) [0..<w]) o1 =
        fold (fs_pixel w h pal y) [0..<w] o1"
      unfolding fold_map by (rule fold_cong) (auto simp: fs_step_def)
    ultimately show ?thesis by simp
  qed
  have "fold (\<lambda>y out. fold (fs_pixel w h pal y) [0..<w] out) [0..<n] out =
      fold (fs_step w h pal) [0..<n * w] out" for n
  proof (induction n)
    case 0
    show ?case by simp
  next
    case (Suc n)
    have "[0..<Suc n * w] = [0..<n * w] @ [n * w..<n * w + w]"
      using upt_add_eq_append [of 0 "n * w" w] by (simp add: add.commute)
    then show ?case
      using Suc by (simp add: row)
  qed
  then show ?thesis by (simp add: fs_loop_def)
qed

lemma fold_fs_step_length [simp]: "length (fold (fs_step w h pal) ks out) = length out"
  by (induction ks arbitrary: out) simp_all

lemma fold_fs_step_alpha:
  "j mod 4 = 3 \<Longrightarrow> fold (fs_step w h pal) ks out ! j = out ! j"
  by (induction ks arbitrary: out) (simp_all add: fs_step_nth_alpha)

lemma fold_fs_step_below:
  assumes "0 < w" "\<forall>k\<in>set ks. j < k * 4"
  shows "fold (fs_step w h pal) ks out ! j = out ! j"
  using assms(2) by (induction ks arbitrary: out) (simp_all add: fs_step_nth_below [OF assms(1)])

lemma fold_fs_step_final:
  assumes "k < n" "n * 4 \<le> length out" "0 < w"
  shows "pixel_rgb (fold (fs_step w h pal) [0..<n] out) k =
           quantized pal (fold (fs_step w h pal) [0..<k] out) k"
proof -
  let ?s = "fold (fs_step w h pal) [0..<k] out"
  have split: "[0..<n] = [0..<k] @ k # [Suc k..<n]"
  proof -
    have "[0..<n] = [0..<k] @ [k..<n]"
      using assms(1) upt_add_eq_append [of 0 k "n - k"] by simp
    then show ?thesis
      using assms(1) by (simp add: upt_conv_Cons)
  qed
  have later: "fold (fs_step w h pal) [Suc k..<n] o1 ! j = o1 ! j" if "j < Suc k * 4" for j o1
    using assms(3) that by (intro fold_fs_step_below) auto
  have "pixel_rgb (fold (fs_step w h pal) [Suc k..<n] (fs_step w h pal k ?s)) k =
      pixel_rgb (fs_step w h pal k ?s) k"
    by (simp add: pixel_rgb_def later)
  moreover have "pixel_rgb (fs_step w h pal k ?s) k = quantized pal ?s k"
    using assms by (intro fs_step_own) simp_all
  ultimately show ?thesis
    by (simp add: split)
qed

subsection \<open>The whole call\<close>

lemma copy_fold_length: "length (fold (\<lambda>i out. out[i := d ! i]) [0..<n] out) = length out"
  by (induction n) auto

lemma copy_fold_nth:
  "j < length out \<Longrightarrow>
   fold (\<lambda>i out. out[i := d ! i]) [0..<n] out ! j = (if j < n then d ! j else out ! j)"
  by (induction n) (auto simp: nth_list_update less_Suc_eq copy_fold_length)

lemma length_copy_loop [simp]: "length (copy_loop d out) = length out"
  by (simp add: copy_loop_def copy_fold_length)

lemma copy_loop_nth:
  "j < length out \<Longrightarrow> copy_loop d out ! j = (if j < length d then d ! j else out ! j)"
  by (simp add: copy_loop_def copy_fold_nth)

lemma length_fs_loop [simp]: "length (fs_loop w h pal out) = length out"
  by (simp add: fs_loop_flat)

lemma fs_loop_alpha: "j mod 4 = 3 \<Longrightarrow> fs_loop w h pal out ! j = out ! j"
  by (simp add: fs_loop_flat fold_fs_step_alpha)

lemma fs_loop_final:
  assumes "k < w * h" "length out = w * h * 4"
  shows "pixel_rgb (fs_loop w h pal out) k =
           quantized pal (fold (fs_step w h pal) [0..<k] out) k"
proof -
  have "0 < w" using assms(1) by (cases w) auto
  then show ?thesis
    using assms fold_fs_step_final [of k "h * w" out w h pal]
    by (simp add: fs_loop_flat mult.commute)
qed

lemma floydSteinberg_result:
  assumes "data imageData < length hp"
  shows "floydSteinberg imageData pal hp =
           (\<lparr>width = width imageData, height = height imageData, data = length hp\<rparr>,
            hp @ [fs_loop (width imageData) (height imageData) pal
                    (copy_loop (hp ! data imageData)
                       (replicate (width imageData * height imageData * 4) 0))])"
  using assms by (simp add: floydSteinberg_def createImageData_def nth_append)

lemma copy_loop_replicate: "length d = n \<Longrightarrow> copy_loop d (replicate n 0) = d"
  by (simp add: list_eq_iff_nth_eq copy_loop_nth)

lemma floydSteinberg_pixels:
  assumes "data imageData < length hp"
    and "length (hp ! data imageData) = width imageData * height imageData * 4"
  shows "floydSteinberg imageData pal hp =
           (\<lparr>width = width imageData, height = height imageData, data = length hp\<rparr>,
            hp @ [fs_loop (width imageData) (height imageData) pal (hp ! data imageData)])"
  by (simp add: floydSteinberg_result [OF assms(1)] copy_loop_replicate [OF assms(2)])

text \<open>
  C8: for every input buffer and palette, the ditherer returns a newly allocated buffer of
  the input's width and height, leaves the input array (and every other array that existed)
  as it was, and every pixel's alpha in the output is the input's.
\<close>

theorem C8_dither_frame:
  assumes "data imageData < length hp"
  shows "case floydSteinberg imageData pal hp of
           (output, hp') \<Rightarrow>
             data output = length hp \<and> length hp' = Suc (length hp) \<and>
             width output = width imageData \<and> height output = height imageData \<and>
             length (hp' ! data output) = width imageData * height imageData * 4 \<and>
             (\<forall>r<length hp. hp' ! r = hp ! r) \<and>
             (\<forall>k<width imageData * height imageData.
                k * 4 + 3 < length (hp ! data imageData) \<longrightarrow>
                (hp' ! data output) ! (k * 4 + 3) = (hp ! data imageData) ! (k * 4 + 3))"
proof -
  have alpha: "fs_loop (width imageData) (height imageData) pal
        (copy_loop (hp ! data imageData) (replicate (width imageData * height imageData * 4) 0)) ! (k * 4 + 3) =
      (hp ! data imageData) ! (k * 4 + 3)"
    if "k < width imageData * height imageData" "k * 4 + 3 < length (hp ! data imageData)" for k
  proof -
    have "(k * 4 + 3) mod 4 = 3" by presburger
    moreover have "k * 4 + 3 < width imageData * height imageData * 4" using that(1) by simp
    ultimately show ?thesis
      using that(2) by (simp add: fs_loop_alpha copy_loop_nth)
  qed
  show ?thesis
    unfolding floydSteinberg_result [OF assms] prod.case
    using alpha by (simp add: nth_append)
qed

text \<open>
  Witness of C8: a 2 by 1 image with the alpha values 40 and 230.
\<close>

theorem C8_dither_frame_witness:
  "(0::nat) < length [[10, 20, 30, 40, 200, 210, 220, 230 :: byte]] \<and>
   (case floydSteinberg \<lparr>width = 2, height = 1, data = 0\<rparr> [''#000000'', ''#FFFFFF'']
           [[10, 20, 30, 40, 200, 210, 220, 230]] of
      (output, hp') \<Rightarrow>
        data output = 1 \<and> width output = 2 \<and> height output = 1 \<and>
        hp' ! 0 = [10, 20, 30, 40, 200, 210, 220, 230] \<and>
        (hp' ! data output) ! 3 = 40 \<and> (hp' ! data output) ! 7 = 230)"
proof -
  let ?hp = "[[10, 20, 30, 40, 200, 210, 220, 230 :: byte]]"
  let ?img = "\<lparr>width = 2, height = 1, data = 0\<rparr> :: ImageData"
  have v: "data ?img < length ?hp" by simp
  obtain outp hp' where r: "floydSteinberg ?img [''#000000'', ''#FFFFFF''] ?hp = (outp, hp')"
    by (cases "floydSteinberg ?img [''#000000'', ''#FFFFFF''] ?hp")
  have all: "data outp = length ?hp \<and> length hp' = Suc (length ?hp) \<and>
             width outp = width ?img \<and> height outp = height ?img \<and>
             length (hp' ! data outp) = width ?img * height ?img * 4 \<and>
             (\<forall>r<length ?hp. hp' ! r = ?hp ! r) \<and>
             (\<forall>k<width ?img * height ?img.
                k * 4 + 3 < length (?hp ! data ?img) \<longrightarrow>
                (hp' ! data outp) ! (k * 4 + 3) = (?hp ! data ?img) ! (k * 4 + 3))"
    using C8_dither_frame [OF v, of "[''#000000'', ''#FFFFFF'']"] unfolding r prod.case .
  then have a: "\<forall>k<width ?img * height ?img.
                k * 4 + 3 < length (?hp ! data ?img) \<longrightarrow>
                (hp' ! data outp) ! (k * 4 + 3) = (?hp ! data ?img) ! (k * 4 + 3)"
    by blast
  have "(hp' ! data outp) ! 3 = 40" using a [rule_format, of 0] by simp
  moreover have "(hp' ! data outp) ! 7 = 230" using a [rule_format, of 1] by simp
  ultimately show ?thesis
    unfolding r prod.case using all by simp
qed

text \<open>
  C2, as the claim states it: with an empty palette the ditherer fails with an InvalidPalette
  error and produces no output buffer. The source has no such check: on the one-pixel image
  (200,100,50,255) the call returns the buffer (0,0,0,255).
\<close>

theorem C2_counterexample:
  "floydSteinberg \<lparr>width = 1, height = 1, data = 0\<rparr> [] [[200, 100, 50, 255]] =
     (\<lparr>width = 1, height = 1, data = 1\<rparr>, [[200, 100, 50, 255], [0, 0, 0, 255]])"
proof -
  have "fs_loop 1 1 [] [200, 100, 50, 255] = [0, 0, 0, 255]"
    by (simp add: fs_loop_def fs_pixel_def findClosestColor_empty)
  then show ?thesis
    using floydSteinberg_pixels [of "\<lparr>width = 1, height = 1, data = 0\<rparr>" "[[200, 100, 50, 255]]" "[]"]
    by simp
qed

text \<open>
  C2, amended: for every input, when the palette is empty the matcher returns (0,0,0) and the
  ditherer raises no error: it returns an output buffer of the input's dimensions in which
  every pixel's R, G and B are 0.
\<close>

theorem C2_empty_palette:
  assumes "data imageData < length hp"
  shows "findClosestColor r g b [] = (0, 0, 0) \<and>
         (case floydSteinberg imageData [] hp of
            (output, hp') \<Rightarrow>
              width output = width imageData \<and> height output = height imageData \<and>
              (\<forall>k<width imageData * height imageData. pixel_rgb (hp' ! data output) k = [0, 0, 0]))"
  unfolding floydSteinberg_result [OF assms] prod.case
  by (simp add: findClosestColor_empty fs_loop_final quantized_empty)

text \<open>
  Witness of C2: a 2 by 1 image, at its second pixel.
\<close>

theorem C2_empty_palette_witness:
  "(0::nat) < length [[200, 100, 50, 255, 1, 2, 3, 4 :: byte]] \<and>
   findClosestColor 200 100 50 [] = (0, 0, 0) \<and>
   pixel_rgb (snd (floydSteinberg \<lparr>width = 2, height = 1, data = 0\<rparr> [] [[200, 100, 50, 255, 1, 2, 3, 4]]) !
      data (fst (floydSteinberg \<lparr>width = 2, height = 1, data = 0\<rparr> [] [[200, 100, 50, 255, 1, 2, 3, 4]]))) 1 = [0, 0, 0]"
proof -
  let ?hp = "[[200, 100, 50, 255, 1, 2, 3, 4 :: byte]]"
  let ?img = "\<lparr>width = 2, height = 1, data = 0\<rparr> :: ImageData"
  have v: "data ?img < length ?hp" by simp
  obtain outp hp' where r: "floydSteinberg ?img [] ?hp = (outp, hp')"
    by (cases "floydSteinberg ?img [] ?hp")
  have "findClosestColor 200 100 50 [] = (0, 0, 0) \<and>
      (width outp = width ?img \<and> height outp = height ?img \<and>
       (\<forall>k<width ?img * height ?img. pixel_rgb (hp' ! data outp) k = [0, 0, 0]))"
    using C2_empty_palette [OF v, of 200 100 50] unfolding r prod.case .
  then show ?thesis
    unfolding r by simp
qed

section \<open>The pipeline on the 4 by 4 gray image\<close>

lemma nth_concat_replicate4:
  "k < n \<Longrightarrow> j < 4 \<Longrightarrow> concat (replicate n [a, b, c, d]) ! (k * 4 + j) = [a, b, c, d] ! j"
proof (induction n arbitrary: k)
  case 0
  then show ?case by simp
next
  case (Suc n)
  show ?case
  proof (cases k)
    case 0
    from Suc.prems have "j = 0 \<or> j = 1 \<or> j = 2 \<or> j = 3" by arith
    then show ?thesis using 0 by auto
  next
    case (Suc k')
    have "concat (replicate (Suc n) [a, b, c, d]) ! (k * 4 + j) =
        ([a, b, c, d] @ concat (replicate n [a, b, c, d])) ! (length [a, b, c, d] + (k' * 4 + j))"
      by (simp add: Suc)
    also have "\<dots> = concat (replicate n [a, b, c, d]) ! (k' * 4 + j)"
      by (rule nth_append_length_plus)
    finally show ?thesis
      using Suc.IH [of k'] Suc.prems Suc by simp
  qed
qed

lemma length_concat_replicate: "length (concat (replicate n xs)) = n * length xs"
  by (induction n) simp_all

lemma length_gray4x4: "length gray4x4 = 64"
  by (simp add: gray4x4_def length_concat_replicate)

lemma gray4x4_nth:
  assumes "k < 16"
  shows "gray4x4 ! (k * 4) = 128" "gray4x4 ! (k * 4 + 1) = 128" "gray4x4 ! (k * 4 + 2) = 128"
    "gray4x4 ! (k * 4 + 3) = 255"
  using nth_concat_replicate4 [OF assms, of 0 128 128 128 255]
    nth_concat_replicate4 [OF assms, of 1 128 128 128 255]
    nth_concat_replicate4 [OF assms, of 2 128 128 128 255]
    nth_concat_replicate4 [OF assms, of 3 128 128 128 255]
  by (simp_all add: gray4x4_def)

lemma gray_stages:
  "process_stages \<lparr>width = 4, height = 4, data = 0\<rparr> DEFAULT_LEVELS DEFAULT_PALETTE [gray4x4] =
     Some (\<lparr>width = 4, height = 4, data = 1\<rparr>, [gray4x4, fs_loop 4 4 DEFAULT_PALETTE gray4x4])"
proof -
  have "applyLevelsToImageData \<lparr>width = 4, height = 4, data = 0\<rparr> DEFAULT_LEVELS [gray4x4] =
      Some (\<lparr>width = 4, height = 4, data = 0\<rparr>, [gray4x4])"
    by (simp add: applyLevelsToImageData_def applyLevels_loop_default)
  then show ?thesis
    using floydSteinberg_pixels [of "\<lparr>width = 4, height = 4, data = 0\<rparr>" "[gray4x4]" DEFAULT_PALETTE]
    by (simp add: process_stages_def length_gray4x4)
qed

lemma gray_pixels:
  "dithered_pixels (process_stages \<lparr>width = 4, height = 4, data = 0\<rparr> DEFAULT_LEVELS DEFAULT_PALETTE [gray4x4]) =
     fs_loop 4 4 DEFAULT_PALETTE gray4x4"
  by (simp add: gray_stages dithered_pixels_def)

lemma pixel_split: "pixel d k = pixel_rgb d k @ [d ! (k * 4 + 3)]"
  by (simp add: pixel_def pixel_rgb_def)

lemma gray_first_pixel: "pixel (fs_loop 4 4 DEFAULT_PALETTE gray4x4) 0 = [255, 255, 255, 255]"
proof -
  have "pixel_rgb (fs_loop 4 4 DEFAULT_PALETTE gray4x4) 0 = quantized DEFAULT_PALETTE gray4x4 0"
    using fs_loop_final [of 0 4 4 gray4x4 DEFAULT_PALETTE] by (simp add: length_gray4x4)
  moreover have "quantized DEFAULT_PALETTE gray4x4 0 = [255, 255, 255]"
    using gray4x4_nth [of 0] by (simp add: quantized_def findClosestColor_default)
  moreover have "fs_loop 4 4 DEFAULT_PALETTE gray4x4 ! 3 = 255"
    using gray4x4_nth(4) [of 0] by (simp add: fs_loop_alpha)
  ultimately show ?thesis
    by (simp add: pixel_split)
qed

text \<open>
  C3, as the claim states it: the first pixel of the dithered 4 by 4 gray image is black.
  It is white: 128 is nearer to 255 than to 0, and no error has reached pixel (0,0) when it
  is quantized.
\<close>

theorem C3_counterexample:
  "pixel (dithered_pixels (process_stages \<lparr>width = 4, height = 4, data = 0\<rparr> DEFAULT_LEVELS
            DEFAULT_PALETTE [gray4x4])) 0 = [255, 255, 255, 255] \<and>
   pixel (dithered_pixels (process_stages \<lparr>width = 4, height = 4, data = 0\<rparr> DEFAULT_LEVELS
            DEFAULT_PALETTE [gray4x4])) 0 \<noteq> [0, 0, 0, 255]"
  by (simp add: gray_pixels gray_first_pixel)

text \<open>
  C3, amended: levels with the default settings, then the ditherer with the palette black,
  white, on the 4 by 4 image of (128,128,128,255) give an output in which every pixel is
  (0,0,0,255) or (255,255,255,255), and the first pixel is (255,255,255,255).
\<close>

theorem C3_gray_pipeline:
  "process_stages \<lparr>width = 4, height = 4, data = 0\<rparr> DEFAULT_LEVELS DEFAULT_PALETTE [gray4x4] \<noteq> None \<and>
   (\<forall>k<16. pixel (dithered_pixels (process_stages \<lparr>width = 4, height = 4, data = 0\<rparr> DEFAULT_LEVELS
                    DEFAULT_PALETTE [gray4x4])) k \<in> {[0, 0, 0, 255], [255, 255, 255, 255]}) \<and>
   pixel (dithered_pixels (process_stages \<lparr>width = 4, height = 4, data = 0\<rparr> DEFAULT_LEVELS
            DEFAULT_PALETTE [gray4x4])) 0 = [255, 255, 255, 255]"
proof (intro conjI allI impI)
  show "process_stages \<lparr>width = 4, height = 4, data = 0\<rparr> DEFAULT_LEVELS DEFAULT_PALETTE [gray4x4] \<noteq> None"
    by (simp add: gray_stages)
next
  fix k :: nat
  assume k: "k < 16"
  have "pixel_rgb (fs_loop 4 4 DEFAULT_PALETTE gray4x4) k \<in> {[0, 0, 0], [255, 255, 255]}"
    using fs_loop_final [of k 4 4 gray4x4 DEFAULT_PALETTE] k quantized_default
    by (simp add: length_gray4x4)
  moreover have "(k * 4 + 3) mod 4 = 3" by presburger
  then have "fs_loop 4 4 DEFAULT_PALETTE gray4x4 ! (k * 4 + 3) = 255"
    using gray4x4_nth(4) [OF k] by (simp add: fs_loop_alpha)
  ultimately show "pixel (dithered_pixels (process_stages \<lparr>width = 4, height = 4, data = 0\<rparr> DEFAULT_LEVELS
                    DEFAULT_PALETTE [gray4x4])) k \<in> {[0, 0, 0, 255], [255, 255, 255, 255]}"
    unfolding gray_pixels pixel_split by auto
next
  show "pixel (dithered_pixels (process_stages \<lparr>width = 4, height = 4, data = 0\<rparr> DEFAULT_LEVELS
            DEFAULT_PALETTE [gray4x4])) 0 = [255, 255, 255, 255]"
    by (simp add: gray_pixels gray_first_pixel)
qed

text \<open>
  Witness of C3: pixel number 5.
\<close>

theorem C3_gray_pipeline_witness:
  "(5::nat) < 16 \<and>
   pixel (dithered_pixels (process_stages \<lparr>width = 4, height = 4, data = 0\<rparr> DEFAULT_LEVELS
            DEFAULT_PALETTE [gray4x4])) 5 \<in> {[0, 0, 0, 255], [255, 255, 255, 255]}"
  using C3_gray_pipeline by simp

section \<open>The ditherer against the specification's wording\<close>

lemma channel_index_nat:
  assumes "0 \<le> x" "0 \<le> y"
  shows "channel_index w x y c = (nat y * w + nat x) * 4 + c"
proof -
  have "(y * int w + x) * 4 + int c = int ((nat y * w + nat x) * 4 + c)"
    using assms by simp
  then show ?thesis unfolding channel_index_def by (simp only: nat_int)
qed

lemma spec_write_neighbor_eq:
  assumes "within_bounds w h (x + dx) (y + dy) \<longleftrightarrow> c"
    and "c \<Longrightarrow> \<forall>ch. channel_index w (x + dx) (y + dy) ch = i + ch"
  shows "spec_write_neighbor w h x y [eR, eG, eB] b (dx, dy, k) =
           (if c then diffuse3 b i (eR, eG, eB) k else b)"
proof (cases c)
  case True
  then show ?thesis
    using assms by (simp add: spec_write_neighbor_def diffuse3_def diffuse_def spec_clamp_def)
next
  case False
  then show ?thesis
    using assms by (simp add: spec_write_neighbor_def)
qed

lemma spec_neighbors:
  assumes "x < w" "y < h"
  shows "fold (\<lambda>n b. spec_write_neighbor w h (int x) (int y) [eR, eG, eB] b n) spec_kernel b0 =
           diffuse_all (fs_targets w h y x) (eR, eG, eB) b0"
proof -
  have right: "spec_write_neighbor w h (int x) (int y) [eR, eG, eB] b (1, 0, 7) =
      (if x + 1 < w then diffuse3 b ((y * w + (x + 1)) * 4) (eR, eG, eB) 7 else b)" for b
  proof (rule spec_write_neighbor_eq)
    show "within_bounds w h (int x + 1) (int y + 0) \<longleftrightarrow> x + 1 < w"
      using assms by (auto simp: within_bounds_def)
    show "\<forall>ch. channel_index w (int x + 1) (int y + 0) ch = (y * w + (x + 1)) * 4 + ch"
      by (simp add: channel_index_nat nat_add_distrib)
  qed
  have bl: "spec_write_neighbor w h (int x) (int y) [eR, eG, eB] b (- 1, 1, 3) =
      (if x > 0 \<and> y + 1 < h then diffuse3 b (((y + 1) * w + (x - 1)) * 4) (eR, eG, eB) 3 else b)" for b
  proof (rule spec_write_neighbor_eq)
    show "within_bounds w h (int x + - 1) (int y + 1) \<longleftrightarrow> x > 0 \<and> y + 1 < h"
      using assms by (auto simp: within_bounds_def)
    show "\<forall>ch. channel_index w (int x + - 1) (int y + 1) ch = ((y + 1) * w + (x - 1)) * 4 + ch"
      if "x > 0 \<and> y + 1 < h"
    proof -
      have "nat (int x + - 1) = x - 1" "nat (int y + 1) = y + 1" by simp_all
      moreover have "0 \<le> int x + - 1" using that by simp
      ultimately show ?thesis by (simp add: channel_index_nat)
    qed
  qed
  have bottom: "spec_write_neighbor w h (int x) (int y) [eR, eG, eB] b (0, 1, 5) =
      (if y + 1 < h then diffuse3 b (((y + 1) * w + x) * 4) (eR, eG, eB) 5 else b)" for b
  proof (rule spec_write_neighbor_eq)
    show "within_bounds w h (int x + 0) (int y + 1) \<longleftrightarrow> y + 1 < h"
      using assms by (auto simp: within_bounds_def)
    show "\<forall>ch. channel_index w (int x + 0) (int y + 1) ch = ((y + 1) * w + x) * 4 + ch"
      by (simp add: channel_index_nat nat_add_distrib)
  qed
  have br: "spec_write_neighbor w h (int x) (int y) [eR, eG, eB] b (1, 1, 1) =
      (if x + 1 < w \<and> y + 1 < h then diffuse3 b (((y + 1) * w + (x + 1)) * 4) (eR, eG, eB) 1 else b)" for b
  proof (rule spec_write_neighbor_eq)
    show "within_bounds w h (int x + 1) (int y + 1) \<longleftrightarrow> x + 1 < w \<and> y + 1 < h"
      using assms by (auto simp: within_bounds_def)
    show "\<forall>ch. channel_index w (int x + 1) (int y + 1) ch = ((y + 1) * w + (x + 1)) * 4 + ch"
      by (simp add: channel_index_nat nat_add_distrib)
  qed
  show ?thesis
    by (simp only: spec_kernel_def fs_targets_def diffuse_all_def fold_simps o_apply id_apply
        prod.case right bl bottom br)
qed

lemma spec_pixel_eq:
  assumes "x < w" "y < h"
  shows "spec_pixel w h pal (int x, int y) out = fs_pixel w h pal y x out"
  by (simp add: spec_pixel_def fs_pixel_targets channel_index_nat spec_neighbors [OF assms] Let_def
      split: prod.splits)

lemma fold_concat_rows: "fold f (concat xss) s = fold (fold f) xss s"
  by (induction xss arbitrary: s) simp_all

lemma spec_dither_eq: "spec_dither w h pal buf = fs_loop w h pal buf"
proof -
  have row: "fold (spec_pixel w h pal) (map (\<lambda>x. (int x, int y)) [0..<w]) b =
      fold (fs_pixel w h pal y) [0..<w] b" if "y < h" for y b
    unfolding fold_map using that by (intro fold_cong) (auto simp: spec_pixel_eq)
  have "fold (spec_pixel w h pal) (concat (map (\<lambda>y. map (\<lambda>x. (int x, int y)) [0..<w]) [0..<h])) buf =
      fold (\<lambda>y out. fold (fs_pixel w h pal y) [0..<w] out) [0..<h] buf"
    unfolding fold_concat_rows fold_map by (intro fold_cong) (auto simp: row)
  then show ?thesis
    by (simp add: spec_dither_def row_major_def fs_loop_def)
qed

text \<open>
  C4: for every input buffer and palette the ditherer's output is what the specification's
  scan computes: pixels in row-major order, and after each pixel is quantized its signed
  per-channel error added to exactly the neighbours right (7/16), bottom-left (3/16), bottom
  (5/16) and bottom-right (1/16) that lie inside the buffer, each write
  \<open>clamp(current + error * weight / 16, 0, 255)\<close> per channel. The 8-bit array keeps
  the written value as the nearest integer (\<open>ToUint8Clamp_near\<close>).
\<close>

theorem C4_error_diffusion:
  assumes "data imageData < length hp"
    and "length (hp ! data imageData) = width imageData * height imageData * 4"
  shows "dithered_pixels (Some (floydSteinberg imageData pal hp)) =
           spec_dither (width imageData) (height imageData) pal (hp ! data imageData)"
  by (simp add: floydSteinberg_pixels [OF assms] dithered_pixels_def spec_dither_eq)

text \<open>
  Witness of C4: a 2 by 1 gray image and the palette black, white.
\<close>

theorem C4_error_diffusion_witness:
  "(0::nat) < length [[128, 128, 128, 255, 128, 128, 128, 255 :: byte]] \<and>
   length [128, 128, 128, 255, 128, 128, 128, 255 :: byte] = 2 * 1 * 4 \<and>
   dithered_pixels (Some (floydSteinberg \<lparr>width = 2, height = 1, data = 0\<rparr> [''#000000'', ''#FFFFFF'']
      [[128, 128, 128, 255, 128, 128, 128, 255]])) =
     spec_dither 2 1 [''#000000'', ''#FFFFFF''] [128, 128, 128, 255, 128, 128, 128, 255]"
  using C4_error_diffusion [of "\<lparr>width = 2, height = 1, data = 0\<rparr>"
      "[[128, 128, 128, 255, 128, 128, 128, 255]]" "[''#000000'', ''#FFFFFF'']"]
  by simp

section \<open>The cache of the orchestrator\<close>

lemma applyLevels_narrow:
  "applyLevels 100 0 1 204 = Some 125" "applyLevels 125 0 1 204 = Some 156"
  "applyLevels 156 0 1 204 = Some 195"
  by (simp_all add: applyLevels_between Math_round_def)

lemma applyLevels_loop_narrow:
  "applyLevels_loop narrowLevels [100, 100, 100, 255] = Some [125, 125, 125, 255]"
  "applyLevels_loop narrowLevels [125, 125, 125, 255] = Some [156, 156, 156, 255]"
  "applyLevels_loop narrowLevels [156, 156, 156, 255] = Some [195, 195, 195, 255]"
  using ToUint8Clamp_int [of 125] ToUint8Clamp_int [of 156] ToUint8Clamp_int [of 195]
  by (simp_all add: applyLevels_store_def narrowLevels_def applyLevels_narrow)

lemma fs_loop_one_pixel:
  "fs_loop 1 1 pal [r, g, b, a] =
     (case findClosestColor (uint r) (uint g) (uint b) pal of
        (newR, newG, newB) \<Rightarrow>
          [ToUint8Clamp (of_int newR), ToUint8Clamp (of_int newG), ToUint8Clamp (of_int newB), a])"
  by (simp add: fs_loop_def fs_pixel_def split: prod.splits)

lemma floydSteinberg_one_pixel:
  assumes "i < length hp" "length (hp ! i) = 4"
  shows "floydSteinberg \<lparr>width = Suc 0, height = Suc 0, data = i\<rparr> pal hp =
           (\<lparr>width = Suc 0, height = Suc 0, data = length hp\<rparr>,
            hp @ [case findClosestColor (uint (hp ! i ! 0)) (uint (hp ! i ! 1)) (uint (hp ! i ! 2)) pal of
                    (newR, newG, newB) \<Rightarrow>
                      [ToUint8Clamp (of_int newR), ToUint8Clamp (of_int newG),
                       ToUint8Clamp (of_int newB), hp ! i ! 3]])"
proof -
  from assms(2) obtain r g b a where d: "hp ! i = [r, g, b, a]"
    by (auto simp: eval_nat_numeral length_Suc_conv)
  show ?thesis
    using assms floydSteinberg_pixels [of "\<lparr>width = 1, height = 1, data = i\<rparr>" hp pal]
      fs_loop_one_pixel [of pal r g b a]
    by (simp add: d)
qed

lemma run_append:
  "run photoshop (es @ es') app = Option.bind (run photoshop es app) (run photoshop es')"
  by (induction es arbitrary: app) (simp_all add: Option.bind_assoc cong: Option.bind_cong)

lemma run_capture:
  "run onePixelHost [ChangeLevels narrowLevels, ClickProcess] initialApp = Some after_capture"
  by (simp add: initialApp_def after_capture_def liveEffect_def processImage_def process_stages_def
      getCompositeImageData_def onePixelHost_def createImageData_def applyLevelsToImageData_def
      applyLevels_loop_narrow floydSteinberg_one_pixel findClosestColor_default
      del: applyLevels_loop.simps)

lemma run_second:
  "run onePixelHost [ChangeLevels narrowLevels, Wait 300] after_capture = Some after_second"
  by (simp add: after_second_def after_capture_def liveEffect_def processImage_def process_stages_def wait_def
      liveFirst_def fireLive_def fireScale_def applyLevelsToImageData_def
      applyLevels_loop_narrow floydSteinberg_one_pixel findClosestColor_default
      del: applyLevels_loop.simps)

lemma run_third:
  "run onePixelHost [ChangeLevels narrowLevels, Wait 300] after_second = Some after_third"
  by (simp add: after_second_def after_third_def liveEffect_def processImage_def process_stages_def wait_def
      liveFirst_def fireLive_def fireScale_def applyLevelsToImageData_def
      applyLevels_loop_narrow floydSteinberg_one_pixel findClosestColor_default
      del: applyLevels_loop.simps)

text \<open>
  C1 says that the cached raw buffer still holds the captured pixels at the start of every
  run that reuses it. The source caches the captured object itself and the levels pass
  overwrites that object's array: with the captured pixel (100,100,100,255) and the levels
  0, 1.0, 204 the cache holds (125,125,125,255) after the capturing run, (156,156,156,255)
  after the first run that reuses it and (195,195,195,255) after the second.
\<close>

theorem C1_cache_overwritten:
  "onePixelHost 10 = Some (1, 1, [100, 100, 100, 255]) \<and>
   cachedPixels (run onePixelHost [ChangeLevels narrowLevels, ClickProcess] initialApp) =
     Some [125, 125, 125, 255] \<and>
   cachedPixels (run onePixelHost
      [ChangeLevels narrowLevels, ClickProcess, ChangeLevels narrowLevels, Wait 300] initialApp) =
     Some [156, 156, 156, 255] \<and>
   cachedPixels (run onePixelHost
      [ChangeLevels narrowLevels, ClickProcess, ChangeLevels narrowLevels, Wait 300,
       ChangeLevels narrowLevels, Wait 300] initialApp) =
     Some [195, 195, 195, 255]"
proof -
  have 1: "run onePixelHost ([ChangeLevels narrowLevels, ClickProcess] @ [ChangeLevels narrowLevels, Wait 300])
      initialApp = Some after_second"
    unfolding run_append by (simp only: run_capture run_second Option.bind.simps)
  have 2: "run onePixelHost (([ChangeLevels narrowLevels, ClickProcess] @ [ChangeLevels narrowLevels, Wait 300]) @
      [ChangeLevels narrowLevels, Wait 300]) initialApp = Some after_third"
    unfolding run_append [of _ "_ @ _"] by (simp only: 1 run_third Option.bind.simps)
  show ?thesis
    using 1 2
    by (simp add: run_capture cachedPixels_def after_capture_def after_second_def after_third_def
        onePixelHost_def del: run.simps)
qed

text \<open>
  When its timeout fires, the scale effect does drop the cache: afterwards there is no cached
  image or a newly captured one.
\<close>

lemma getCompositeImageData_fresh:
  assumes "getCompositeImageData photoshop scale hp = Some (raw, hp1)"
  shows "data raw = length hp \<and> length hp1 = Suc (length hp)"
  using assms
  by (auto simp: getCompositeImageData_def createImageData_def split: option.splits if_splits prod.splits)

lemma fireScale_recaptures:
  assumes "scaleTimeout app = Some (deadline, closure)" "deadline \<le> t"
    and "fireScale photoshop t app = Some app'"
  shows "cachedRawImageRef app' = None \<or>
         (\<exists>raw. cachedRawImageRef app' = Some raw \<and> data raw = length (arrays app))"
  using assms
  by (auto simp: fireScale_def processImage_def dest!: getCompositeImageData_fresh
      split: option.splits prod.splits)

lemma length_captured10: "length captured10 = 40"
  by (simp add: captured10_def)

lemma run_scale10:
  "run scaledHost [ClickProcess] initialApp = Some scale10_cached"
proof -
  have "floydSteinberg \<lparr>width = 10, height = 1, data = 0\<rparr> DEFAULT_PALETTE [captured10] =
      (\<lparr>width = 10, height = 1, data = 1\<rparr>, [captured10, fs_loop 10 1 DEFAULT_PALETTE captured10])"
    using floydSteinberg_pixels [of "\<lparr>width = 10, height = 1, data = 0\<rparr>" "[captured10]" DEFAULT_PALETTE]
    by (simp add: length_captured10)
  moreover have "replicate 40 128 = captured10" "captured10 \<noteq> []"
    by (simp_all add: captured10_def)
  ultimately show ?thesis
    by (simp add: initialApp_def scale10_cached_def processImage_def process_stages_def getCompositeImageData_def
        scaledHost_def createImageData_def applyLevelsToImageData_def applyLevels_loop_default
        length_captured10)
qed

lemma run_stale:
  "run scaledHost [ChangeAlgorithm Atkinson, Wait 250, ChangeProcessingScale 20, Wait 50] scale10_cached =
     Some scale20_stale"
proof -
  have "floydSteinberg \<lparr>width = 10, height = 1, data = 0\<rparr> DEFAULT_PALETTE
        [captured10, fs_loop 10 1 DEFAULT_PALETTE captured10] =
      (\<lparr>width = 10, height = 1, data = 2\<rparr>,
       [captured10, fs_loop 10 1 DEFAULT_PALETTE captured10, fs_loop 10 1 DEFAULT_PALETTE captured10])"
    using floydSteinberg_pixels [of "\<lparr>width = 10, height = 1, data = 0\<rparr>"
        "[captured10, fs_loop 10 1 DEFAULT_PALETTE captured10]" DEFAULT_PALETTE]
    by (simp add: length_captured10)
  then show ?thesis
    by (simp add: scale10_cached_def scale20_stale_def liveEffect_def scaleEffect_def
        processImage_def process_stages_def wait_def liveFirst_def fireLive_def fireScale_def
        applyLevelsToImageData_def applyLevels_loop_default)
qed

text \<open>
  C9 says that after a change of the processing scale the next run never reads the buffer
  captured at the old scale. The source clears the cache only inside the 500 ms timeout of
  the scale effect: a live-preview timeout registered 250 ms before the scale change fires 50
  ms after it, finds the buffer captured at scale 10 still cached and dithers it, while the
  processing scale is 20.
\<close>

theorem C9_stale_buffer_reused:
  "run scaledHost [ClickProcess, ChangeAlgorithm Atkinson, Wait 250, ChangeProcessingScale 20, Wait 50]
     initialApp = Some scale20_stale \<and>
   processingScale (previewState scale20_stale) = 20 \<and>
   cachedRawImageRef scale20_stale = Some \<lparr>width = 10, height = 1, data = 0\<rparr> \<and>
   outputPixels (Some scale20_stale) = Some (fs_loop 10 1 DEFAULT_PALETTE captured10) \<and>
   cachedPixels (Some scale20_stale) = Some captured10 \<and>
   scaledHost 10 = Some (10, 1, captured10)"
proof -
  have "run scaledHost ([ClickProcess] @ [ChangeAlgorithm Atkinson, Wait 250, ChangeProcessingScale 20, Wait 50])
      initialApp = Some scale20_stale"
    unfolding run_append by (simp only: run_scale10 run_stale Option.bind.simps)
  then show ?thesis
    by (simp add: scale20_stale_def outputPixels_def cachedPixels_def scaledHost_def captured10_def
        del: run.simps)
qed

section \<open>The preview geometry\<close>

lemma double_rel_error:
  "\<bar>double x - x\<bar> \<le> \<bar>x\<bar> / 2 ^ 53"
proof (cases "x = 0")
  case True
  then show ?thesis by (simp add: double_def)
next
  case False
  define e where "e = \<lfloor>log 2 \<bar>x\<bar>\<rfloor>"
  define u :: real where "u = 2 powr (of_int e - 52)"
  have u_pos: "0 < u" by (simp add: u_def)
  have "of_int e \<le> log 2 \<bar>x\<bar>" by (simp add: e_def)
  then have "2 powr of_int e \<le> 2 powr log 2 \<bar>x\<bar>" by simp
  then have lo: "2 powr of_int e \<le> \<bar>x\<bar>" using False by simp
  have u_eq: "u = 2 powr of_int e / 2 ^ 52"
    by (simp add: u_def powr_diff)
  have d: "double x = of_int (roundTiesToEven (x / u)) * u"
    using False by (simp add: double_def Let_def e_def u_def)
  have "\<bar>double x - x\<bar> = \<bar>of_int (roundTiesToEven (x / u)) - x / u\<bar> * u"
  proof -
    have "double x - x = (of_int (roundTiesToEven (x / u)) - x / u) * u"
      using u_pos by (simp add: d field_simps)
    then show ?thesis using u_pos by (simp add: abs_mult)
  qed
  also have "\<dots> \<le> 1 / 2 * u"
    using roundTiesToEven_near [of "x / u"] u_pos by (intro mult_right_mono) simp_all
  also have "\<dots> = 2 powr of_int e / 2 ^ 53" by (simp add: u_eq)
  also have "\<dots> \<le> \<bar>x\<bar> / 2 ^ 53" using lo by (simp add: divide_right_mono)
  finally show ?thesis .
qed

lemma scaled_error:
  fixes d p :: nat
  shows "\<bar>double (real d * double (real p / 100)) - real (d * p) / 100\<bar> \<le> 3 * (real (d * p) / 100) / 2 ^ 53"
proof -
  define q where "q = real (d * p) / 100"
  define s where "s = double (real p / 100)"
  have q0: "0 \<le> q" by (simp add: q_def)
  have s_err: "\<bar>s - real p / 100\<bar> \<le> (real p / 100) / 2 ^ 53"
    using double_rel_error [of "real p / 100"] by (simp add: s_def)
  have ds_err: "\<bar>real d * s - q\<bar> \<le> q / 2 ^ 53"
  proof -
    have "real d * s - q = real d * (s - real p / 100)"
      by (simp add: q_def algebra_simps)
    then have "\<bar>real d * s - q\<bar> = real d * \<bar>s - real p / 100\<bar>"
      by (simp add: abs_mult)
    also have "\<dots> \<le> real d * ((real p / 100) / 2 ^ 53)"
      using s_err by (intro mult_left_mono) simp_all
    also have "\<dots> = q / 2 ^ 53" by (simp add: q_def)
    finally show ?thesis .
  qed
  have ds_abs: "\<bar>real d * s\<bar> \<le> 2 * q"
  proof -
    have "\<bar>real d * s\<bar> \<le> \<bar>real d * s - q\<bar> + \<bar>q\<bar>" by linarith
    also have "\<dots> \<le> q / 2 ^ 53 + q" using ds_err q0 by simp
    also have "\<dots> \<le> 2 * q" using q0 by (simp add: field_simps)
    finally show ?thesis .
  qed
  have "\<bar>double (real d * s) - real d * s\<bar> \<le> \<bar>real d * s\<bar> / 2 ^ 53"
    by (rule double_rel_error)
  also have "\<dots> \<le> 2 * q / 2 ^ 53"
    using ds_abs by (simp add: divide_right_mono)
  finally have t_err: "\<bar>double (real d * s) - real d * s\<bar> \<le> 2 * q / 2 ^ 53" .
  have "\<bar>double (real d * s) - q\<bar> \<le> \<bar>double (real d * s) - real d * s\<bar> + \<bar>real d * s - q\<bar>"
    by linarith
  also have "\<dots> \<le> 2 * q / 2 ^ 53 + q / 2 ^ 53"
    using t_err ds_err by linarith
  also have "\<dots> = 3 * q / 2 ^ 53" by simp
  finally show ?thesis by (simp add: q_def s_def)
qed

lemma scaled_round:
  fixes d p :: nat
  assumes "d < 2 ^ 31" "p \<le> 200" "(d * p) mod 100 \<noteq> 50"
  shows "Math_round (double (real d * double (real p / 100))) = int ((d * p + 50) div 100)"
proof -
  define n where "n = d * p"
  define t where "t = double (real d * double (real p / 100))"
  define m where "m = (n + 50) div 100"
  define r where "r = (n + 50) mod 100"
  have "d * p \<le> 2 ^ 31 * 200" using assms(1,2) by (intro mult_mono) simp_all
  then have "real (d * p) \<le> real (2 ^ 31 * 200)" by (rule of_nat_mono)
  then have n_le: "real n \<le> 2 ^ 31 * 200" by (simp add: n_def)
  have "\<bar>t - real n / 100\<bar> \<le> 3 * (real n / 100) / 2 ^ 53"
    using scaled_error [of d p] by (simp add: t_def n_def)
  also have "\<dots> \<le> 3 * (2 ^ 31 * 200 / 100) / 2 ^ 53"
    using n_le by (intro divide_right_mono mult_left_mono) simp_all
  finally have "\<bar>t - real n / 100\<bar> \<le> 3 * (2 ^ 31 * 200 / 100) / 2 ^ 53" .
  moreover have "(3 * (2 ^ 31 * 200 / 100) / 2 ^ 53 :: real) < 1 / 200" by (simp add: field_simps)
  ultimately have close: "\<bar>t - real n / 100\<bar> < 1 / 200" by (rule le_less_trans)
  have r_ne: "r \<noteq> 0"
  proof
    assume "r = 0"
    then have "(n mod 100 + 50) mod 100 = 0" by (simp add: r_def mod_add_left_eq)
    moreover have "n mod 100 < 100" by simp
    ultimately have "n mod 100 = 50"
      by (cases "n mod 100 + 50 < 100") (simp_all add: le_mod_geq)
    with assms(3) show False by (simp add: n_def)
  qed
  have r_lt: "r < 100" by (simp add: r_def)
  have "n + 50 = m * 100 + r" by (simp add: m_def r_def)
  then have "real (n + 50) = real (m * 100 + r)" by (rule arg_cong)
  then have "real n + 50 = real m * 100 + real r" by simp
  then have q: "real n / 100 + 1 / 2 = real m + real r / 100" by linarith
  have "1 \<le> real r" "real r \<le> 99" using r_ne r_lt by simp_all
  then have "real m \<le> t + 1 / 2" "t + 1 / 2 < real m + 1"
    using close q by linarith+
  then have "\<lfloor>t + 1 / 2\<rfloor> = int m"
    by (intro floor_unique) simp_all
  then show ?thesis
    by (simp add: Math_round_def t_def m_def n_def)
qed

lemma double_eval:
  assumes "2 ^ 52 \<le> \<bar>x\<bar> * 2 ^ k" "\<bar>x\<bar> * 2 ^ k < 2 ^ 53"
  shows "double x = of_int (roundTiesToEven (x * 2 ^ k)) / 2 ^ k"
proof -
  have x0: "x \<noteq> 0" using assms(1) by auto
  then have pos: "0 < \<bar>x\<bar>" by simp
  have p: "2 powr (real_of_int (52 - int k)) = 2 ^ 52 / 2 ^ k"
    "2 powr (real_of_int (52 - int k) + 1) = 2 ^ 53 / 2 ^ k"
    by (simp_all add: powr_diff powr_add powr_realpow)
  have "2 powr (real_of_int (52 - int k)) \<le> \<bar>x\<bar>"
    using assms(1) unfolding p by (simp add: field_simps)
  then have lo: "real_of_int (52 - int k) \<le> log 2 \<bar>x\<bar>"
    using pos by (simp add: le_log_iff)
  have "\<bar>x\<bar> < 2 powr (real_of_int (52 - int k) + 1)"
    using assms(2) unfolding p by (simp add: field_simps)
  then have hi: "log 2 \<bar>x\<bar> < real_of_int (52 - int k) + 1"
    using pos by (simp add: log_less_iff)
  have e: "\<lfloor>log 2 \<bar>x\<bar>\<rfloor> = 52 - int k"
    using lo hi by (rule floor_unique)
  have u: "2 powr (- real k) = 1 / 2 ^ k"
    by (simp add: powr_minus powr_realpow field_simps)
  show ?thesis
    using x0 by (simp add: double_def Let_def e u)
qed

lemma double_29_percent: "double (29 / 100) = 5224175567749775 / 2 ^ 54"
  using double_eval [of "29 / 100" 54] by (simp add: roundTiesToEven_def)

lemma double_50_by_29_percent: "double (50 * (5224175567749775 / 2 ^ 54)) = 8162774324609023 / 2 ^ 49"
  using double_eval [of "50 * (5224175567749775 / 2 ^ 54)" 49] by (simp add: roundTiesToEven_def)

lemma scaled_50_29: "Math_round (double (real 50 * double (real 29 / 100))) = 14"
proof -
  have "real 29 / 100 = 29 / 100" "real 50 = 50" by simp_all
  then have v: "double (real 50 * double (real 29 / 100)) = 8162774324609023 / 2 ^ 49"
    by (simp only: double_29_percent double_50_by_29_percent)
  have "Math_round (8162774324609023 / 2 ^ 49) = 14"
    by (simp add: Math_round_def)
  then show ?thesis by (simp only: v)
qed

lemma Math_round_percent:
  fixes d p :: nat
  shows "Math_round (real d * real p / 100) = int ((d * p + 50) div 100)"
proof -
  have "real d * real p / 100 + 1 / 2 = real (d * p + 50) / real 100"
    by (simp add: field_simps)
  then show ?thesis
    unfolding Math_round_def by (simp only: floor_divide_of_nat_eq)
qed

lemma scaled_exact:
  fixes d p :: nat
  assumes "d < 2 ^ 31" "p \<le> 200" "(d * p) mod 100 \<noteq> 50"
  shows "Math_round (double (real d * double (real p / 100))) = Math_round (real d * real p / 100)"
  by (simp only: scaled_round [OF assms] Math_round_percent)

text \<open>
  C10, as the claim states it: each dimension is \<open>round(dimension * scale / 100)\<close>. At the
  size 50 and the scale 29 that is \<open>round(14.5) = 15\<close>, but the source multiplies by the
  double nearest to 0.29 and rounds the product 14.499999999999998 to 14.
\<close>

theorem C10_counterexample:
  "calculateProcessedSize \<lparr>width = 50, height = 50\<rparr> 29 = \<lparr>width = 14, height = 14\<rparr> \<and>
   Math_round (50 * 29 / 100) = 15"
proof -
  have "calculateProcessedSize \<lparr>width = 50, height = 50\<rparr> 29 =
      \<lparr>width = nat (Math_round (double (real 50 * double (real 29 / 100)))),
       height = nat (Math_round (double (real 50 * double (real 29 / 100))))\<rparr>"
    by (simp only: calculateProcessedSize_def Let_def Size.simps)
  also have "\<dots> = \<lparr>width = 14, height = 14\<rparr>"
    unfolding scaled_50_29 by simp
  finally have "calculateProcessedSize \<lparr>width = 50, height = 50\<rparr> 29 = \<lparr>width = 14, height = 14\<rparr>" .
  moreover have "Math_round (50 * 29 / 100) = 15"
    by (simp add: Math_round_def)
  ultimately show ?thesis by (rule conjI)
qed

text \<open>
  C10, amended: for dimensions below \<open>2^31\<close> and percentages up to 200, processedSize and
  canvasSize give \<open>round(dimension * percent / 100)\<close> in each dimension whenever
  \<open>dimension * percent / 100\<close> is not exactly halfway between two integers; feedback is
  pixel-perfect exactly at 100, downscaled exactly below 100 and upscaled exactly above 100;
  and processedSize({1000,500}, 10) = {100,50}, canvasSize({100,50}, 200) = {200,100},
  feedback(100) = pixel-perfect, feedback(50) = downscaled, feedback(150) = upscaled.
\<close>

theorem C10_geometry:
  "(width sz < 2 ^ 31 \<and> height sz < 2 ^ 31 \<and> percent \<le> 200 \<and>
    (width sz * percent) mod 100 \<noteq> 50 \<and> (height sz * percent) mod 100 \<noteq> 50 \<longrightarrow>
      calculateProcessedSize sz percent =
        \<lparr>width = nat (Math_round (real (width sz) * real percent / 100)),
         height = nat (Math_round (real (height sz) * real percent / 100))\<rparr> \<and>
      calculateCanvasSize sz percent =
        \<lparr>width = nat (Math_round (real (width sz) * real percent / 100)),
         height = nat (Math_round (real (height sz) * real percent / 100))\<rparr>) \<and>
   (getBorderColor zoom = green \<longleftrightarrow> zoom = 100) \<and>
   (getBorderColor zoom = red \<longleftrightarrow> zoom < 100) \<and>
   (getBorderColor zoom = blue \<longleftrightarrow> zoom > 100) \<and>
   calculateProcessedSize \<lparr>width = 1000, height = 500\<rparr> 10 = \<lparr>width = 100, height = 50\<rparr> \<and>
   calculateCanvasSize \<lparr>width = 100, height = 50\<rparr> 200 = \<lparr>width = 200, height = 100\<rparr> \<and>
   getBorderColor 100 = green \<and> getBorderColor 50 = red \<and> getBorderColor 150 = blue"
proof -
  have general: "calculateProcessedSize s p =
        \<lparr>width = nat (Math_round (real (width s) * real p / 100)),
         height = nat (Math_round (real (height s) * real p / 100))\<rparr> \<and>
      calculateCanvasSize s p =
        \<lparr>width = nat (Math_round (real (width s) * real p / 100)),
         height = nat (Math_round (real (height s) * real p / 100))\<rparr>"
    if "width s < 2 ^ 31" "height s < 2 ^ 31" "p \<le> 200"
      "(width s * p) mod 100 \<noteq> 50" "(height s * p) mod 100 \<noteq> 50" for s :: Size and p
    unfolding calculateProcessedSize_def calculateCanvasSize_def Let_def
    by (simp only: scaled_exact [OF that(1,3,4)] scaled_exact [OF that(2,3,5)] simp_thms)
  have border: "(getBorderColor zoom = green \<longleftrightarrow> zoom = 100) \<and>
      (getBorderColor zoom = red \<longleftrightarrow> zoom < 100) \<and>
      (getBorderColor zoom = blue \<longleftrightarrow> zoom > 100)" for zoom
    by (auto simp: getBorderColor_def)
  have e1: "calculateProcessedSize \<lparr>width = 1000, height = 500\<rparr> 10 = \<lparr>width = 100, height = 50\<rparr>"
    using general [of "\<lparr>width = 1000, height = 500\<rparr>" 10] by (simp add: Math_round_def)
  have e2: "calculateCanvasSize \<lparr>width = 100, height = 50\<rparr> 200 = \<lparr>width = 200, height = 100\<rparr>"
    using general [of "\<lparr>width = 100, height = 50\<rparr>" 200] by (simp add: Math_round_def)
  show ?thesis
    using general [of sz percent] border [of zoom] border [of 100] border [of 50] border [of 150] e1 e2
    by simp
qed

text \<open>
  Witness of C10: a 1920 by 1080 source at 25 percent.
\<close>

theorem C10_geometry_witness:
  "width \<lparr>width = 1920, height = 1080\<rparr> < 2 ^ 31 \<and> height \<lparr>width = 1920, height = 1080\<rparr> < 2 ^ 31 \<and>
   (25::nat) \<le> 200 \<and> (1920 * 25) mod 100 \<noteq> (50::nat) \<and> (1080 * 25) mod 100 \<noteq> (50::nat) \<and>
   calculateProcessedSize \<lparr>width = 1920, height = 1080\<rparr> 25 = \<lparr>width = 480, height = 270\<rparr> \<and>
   calculateCanvasSize \<lparr>width = 1920, height = 1080\<rparr> 25 = \<lparr>width = 480, height = 270\<rparr>"
  using C10_geometry [of "\<lparr>width = 1920, height = 1080\<rparr>" 25 100]
  by (simp add: Math_round_def)

end
